theory Spec2Isabelle
  imports Complex_Main "HOL-Library.Multiset"
begin

section \<open>Python values and failures\<close>

text \<open>
  The program computes on Python floats. They are modelled as the reals: every statement
  below is about the exact arithmetic the code prescribes, not about binary rounding.
  Every place where the source can raise is a branch of the model that returns
  \<open>Inl\<close> of the exception. \<open>ComplexResult\<close> is not an exception: it marks the one
  place (a negative base under a fractional exponent) where Python leaves the reals
  and carries on with a complex number, which this model does not follow.
\<close>

datatype error = ValueError | IndexError | ZeroDivisionError | ComplexResult

definition and_then :: "error + 'a \<Rightarrow> ('a \<Rightarrow> error + 'b) \<Rightarrow> error + 'b" where
  "and_then r f = (case r of Inl e \<Rightarrow> Inl e | Inr v \<Rightarrow> f v)"

text \<open>\<open>xs[i]\<close> for an index produced by \<open>range\<close> (never negative).\<close>

definition item :: "'a list \<Rightarrow> nat \<Rightarrow> error + 'a" where
  "item xs i = (if i < length xs then Inr (xs ! i) else Inl IndexError)"

text \<open>A list comprehension whose body can raise: the first failure, left to right, wins.\<close>

fun comprehend :: "('a \<Rightarrow> error + 'b) \<Rightarrow> 'a list \<Rightarrow> error + 'b list" where
  "comprehend f [] = Inr []"
| "comprehend f (x # xs) =
     (case f x of
        Inl e \<Rightarrow> Inl e
      | Inr v \<Rightarrow> (case comprehend f xs of Inl e \<Rightarrow> Inl e | Inr vs \<Rightarrow> Inr (v # vs)))"

text \<open>
  \<open>x ** y\<close> on floats: \<open>0.0 ** y\<close> raises for negative \<open>y\<close>, a negative base with
  an integral exponent is an ordinary power, and with a fractional exponent the result
  is complex.
\<close>

definition float_pow :: "real \<Rightarrow> real \<Rightarrow> error + real" where
  "float_pow x y =
     (if y = 0 then Inr 1
      else if 0 < x then Inr (x powr y)
      else if x = 0 then (if y < 0 then Inl ZeroDivisionError else Inr 0)
      else if of_int \<lfloor>y\<rfloor> = y then Inr (x powi \<lfloor>y\<rfloor>)
      else Inl ComplexResult)"

section \<open>Pythagorean fuzzy values\<close>

record PFS =
  mu :: real
  nu :: real

text \<open>\<open>PFS.__post_init__\<close>: the only check made when a value is constructed.\<close>

definition post_init :: "PFS \<Rightarrow> error + unit" where
  "post_init self =
     (if (mu self)\<^sup>2 + (nu self)\<^sup>2 > 1 + 1 / 10 ^ 9 then Inl ValueError else Inr ())"

text \<open>\<open>PFS(mu, nu)\<close>: the dataclass stores both fields and then runs \<open>__post_init__\<close>.\<close>

definition new_PFS :: "real \<Rightarrow> real \<Rightarrow> error + PFS" where
  "new_PFS a b =
     (let self = \<lparr>mu = a, nu = b\<rparr> in
      case post_init self of Inl e \<Rightarrow> Inl e | Inr _ \<Rightarrow> Inr self)"

definition score :: "PFS \<Rightarrow> real" where
  "score self = (mu self)\<^sup>2 - (nu self)\<^sup>2"

section \<open>FAHP weights\<close>

definition fahp_weights :: "PFS list list \<Rightarrow> error + real list" where
  "fahp_weights pfs_matrix =
     (let n = length pfs_matrix in
      and_then
        (comprehend (\<lambda>i. comprehend (\<lambda>j.
            and_then (item pfs_matrix i) (\<lambda>row.
            and_then (item row j) (\<lambda>c. Inr (mu c)))) [0..<n]) [0..<n])
        (\<lambda>S.
      and_then
        (comprehend (\<lambda>i.
            float_pow (foldl (\<lambda>prod j. prod * S ! i ! j) 1 [0..<n]) (1 / real n)) [0..<n])
        (\<lambda>g.
      let total = sum_list g in
      if total = 0
      then (if n = 0 then Inl ZeroDivisionError else Inr (replicate n (1 / real n)))
      else Inr (map (\<lambda>gi. gi / total) g))))"

text \<open>
  The quantity the specification names \<open>g_i = (\<Prod>_j mu[i][j])^(1/N)\<close>, written from
  its words, for comparison with what \<open>fahp_weights\<close> computes.
\<close>

definition geometric_mean_mu :: "PFS list \<Rightarrow> real" where
  "geometric_mean_mu row = (prod_list (map mu row)) powr (1 / real (length row))"

section \<open>FTOPSIS ranking\<close>

text \<open>One row of the data frame that \<open>ftopsis\<close> builds: the columns Alternative, D+, D-, CC.\<close>

record ranking_row =
  Alternative :: string
  D_plus :: real
  D_minus :: real
  CC :: real

text \<open>\<open>max(...)\<close> and \<open>min(...)\<close> over a generator: ValueError when it yields nothing.\<close>

definition max_of :: "real list \<Rightarrow> error + real" where
  "max_of xs = (case xs of [] \<Rightarrow> Inl ValueError | x # rest \<Rightarrow> Inr (foldl max x rest))"

definition min_of :: "real list \<Rightarrow> error + real" where
  "min_of xs = (case xs of [] \<Rightarrow> Inl ValueError | x # rest \<Rightarrow> Inr (foldl min x rest))"

text \<open>The score matrix \<open>S\<close>, read cell by cell as the comprehension does.\<close>

definition score_matrix :: "PFS list list \<Rightarrow> nat \<Rightarrow> nat \<Rightarrow> error + real list list" where
  "score_matrix pfs_matrix m n =
     comprehend (\<lambda>i. comprehend (\<lambda>j.
        and_then (item pfs_matrix i) (\<lambda>row.
        and_then (item row j) (\<lambda>c. Inr (score c)))) [0..<n]) [0..<m]"

text \<open>The denominator of column \<open>j\<close>, after the replacement of a zero norm by \<open>1.0\<close>.\<close>

definition denom :: "real list list \<Rightarrow> nat \<Rightarrow> nat \<Rightarrow> real" where
  "denom S m j =
     (let d = sqrt (sum_list (map (\<lambda>i. (S ! i ! j)\<^sup>2) [0..<m]))
      in if d = 0 then 1 else d)"

text \<open>
  One round of the normalising loop: column \<open>j\<close> opens the rows of \<open>R\<close> when
  \<open>j = 0\<close> and is appended to them otherwise. \<open>S\<close> has \<open>m\<close> rows of \<open>n\<close> cells and
  \<open>R\<close> has \<open>m\<close> rows after the first round, so every read is in range.
\<close>

definition normalize_column :: "real list list \<Rightarrow> nat \<Rightarrow> real list list \<Rightarrow> nat \<Rightarrow> real list list" where
  "normalize_column S m R j =
     (let col = map (\<lambda>i. S ! i ! j / denom S m j) [0..<m]
      in if j = 0 then map (\<lambda>i. [col ! i]) [0..<m]
         else map (\<lambda>i. R ! i @ [col ! i]) [0..<m])"

definition normalize :: "real list list \<Rightarrow> nat \<Rightarrow> nat \<Rightarrow> real list list" where
  "normalize S m n = foldl (normalize_column S m) [] [0..<n]"

definition weighted :: "real list list \<Rightarrow> real list \<Rightarrow> nat \<Rightarrow> nat \<Rightarrow> error + real list list" where
  "weighted R weights m n =
     comprehend (\<lambda>i. comprehend (\<lambda>j.
        and_then (item weights j) (\<lambda>w. Inr (R ! i ! j * w))) [0..<n]) [0..<m]"

definition distance :: "real list list \<Rightarrow> real list \<Rightarrow> nat \<Rightarrow> nat \<Rightarrow> real" where
  "distance V ideal n i = sqrt (sum_list (map (\<lambda>j. (V ! i ! j - ideal ! j)\<^sup>2) [0..<n]))"

definition closeness :: "real \<Rightarrow> real \<Rightarrow> real" where
  "closeness dp dm = (if dp + dm \<noteq> 0 then dm / (dp + dm) else 0)"

text \<open>
  The second half of \<open>ftopsis\<close>, from the weighted matrix \<open>V\<close> on: the two ideal
  vectors, the distances, the closeness coefficients and the data frame, whose
  constructor raises ValueError when its columns differ in length.
\<close>

definition ranking_frame :: "real list list \<Rightarrow> nat \<Rightarrow> nat \<Rightarrow> string list \<Rightarrow> error + ranking_row list" where
  "ranking_frame V m n alternatives =
     and_then (comprehend (\<lambda>j. max_of (map (\<lambda>i. V ! i ! j) [0..<m])) [0..<n]) (\<lambda>v_plus.
     and_then (comprehend (\<lambda>j. min_of (map (\<lambda>i. V ! i ! j) [0..<m])) [0..<n]) (\<lambda>v_minus.
     let Dp = map (distance V v_plus n) [0..<m];
         Dm = map (distance V v_minus n) [0..<m];
         C = map (\<lambda>i. closeness (Dp ! i) (Dm ! i)) [0..<m]
     in if length alternatives \<noteq> m then Inl ValueError
        else Inr (map (\<lambda>i. \<lparr>Alternative = alternatives ! i, D_plus = Dp ! i,
                               D_minus = Dm ! i, CC = C ! i\<rparr>) [0..<m])))"

text \<open>\<open>ftopsis\<close> up to the data frame, before it is sorted.\<close>

definition ftopsis_frame :: "PFS list list \<Rightarrow> real list \<Rightarrow> string list \<Rightarrow> error + ranking_row list" where
  "ftopsis_frame pfs_matrix weights alternatives =
     (let m = length pfs_matrix in
      and_then (item pfs_matrix 0) (\<lambda>first.
      let n = length first in
      and_then (score_matrix pfs_matrix m n) (\<lambda>S.
      let R = normalize S m n in
      and_then (weighted R weights m n) (\<lambda>V.
      ranking_frame V m n alternatives))))"

text \<open>
  \<open>sort_values(by="CC", ascending=False)\<close> is a call into the data-frame library with
  its default sorting kind, which the library documents as not stable. The model is
  the library's contract: the result holds the same rows, in descending order of CC;
  nothing is fixed about the order of rows with equal CC.
\<close>

definition sort_values_CC_descending :: "ranking_row list \<Rightarrow> ranking_row list \<Rightarrow> bool" where
  "sort_values_CC_descending df out \<longleftrightarrow>
     mset out = mset df \<and> sorted_wrt (\<lambda>a b. CC b \<le> CC a) out"

text \<open>\<open>ftopsis pfs_matrix weights alternatives r\<close>: the call may end with \<open>r\<close>.\<close>

definition ftopsis :: "PFS list list \<Rightarrow> real list \<Rightarrow> string list \<Rightarrow> error + ranking_row list \<Rightarrow> bool" where
  "ftopsis pfs_matrix weights alternatives r =
     (case ftopsis_frame pfs_matrix weights alternatives of
        Inl e \<Rightarrow> r = Inl e
      | Inr df \<Rightarrow> (case r of Inl _ \<Rightarrow> False | Inr out \<Rightarrow> sort_values_CC_descending df out))"

section \<open>Aggregation of the experts' matrices\<close>

text \<open>
  The two aggregation loops of \<open>App.compute\<close> (one for the FAHP matrices, one for the
  FTOPSIS matrices) are the same code on different inputs: both run over the fixed
  index range \<open>range(5)\<close>, divide by \<open>self.experts\<close> and build every cell with
  \<open>PFS(mu_avg, nu_avg)\<close>.
\<close>

definition expert_cells :: "PFS list list list \<Rightarrow> nat \<Rightarrow> nat \<Rightarrow> nat \<Rightarrow> (PFS \<Rightarrow> real) \<Rightarrow> error + real list" where
  "expert_cells pfs_experts experts i j field =
     comprehend (\<lambda>e.
        and_then (item pfs_experts e) (\<lambda>matrix.
        and_then (item matrix i) (\<lambda>row.
        and_then (item row j) (\<lambda>c. Inr (field c))))) [0..<experts]"

definition divide :: "real \<Rightarrow> nat \<Rightarrow> error + real" where
  "divide x k = (if k = 0 then Inl ZeroDivisionError else Inr (x / real k))"

definition aggregate :: "nat \<Rightarrow> PFS list list list \<Rightarrow> error + PFS list list" where
  "aggregate experts pfs_experts =
     comprehend (\<lambda>i. comprehend (\<lambda>j.
        and_then (expert_cells pfs_experts experts i j mu) (\<lambda>mus.
        and_then (divide (sum_list mus) experts) (\<lambda>mu_avg.
        and_then (expert_cells pfs_experts experts i j nu) (\<lambda>nus.
        and_then (divide (sum_list nus) experts) (\<lambda>nu_avg.
        new_PFS mu_avg nu_avg))))) [0..<5]) [0..<5]"

section \<open>Descriptive statistics\<close>

text \<open>
  \<open>statistical_summary\<close> reads the CC column as an array of the numeric library and
  calls its \<open>mean\<close>, \<open>std\<close>, \<open>min\<close> and \<open>max\<close>. The array's \<open>std\<close> has zero delta
  degrees of freedom by default: it divides by the number of elements. On an empty
  array \<open>min\<close> raises ValueError. The keys of the returned dictionary are Turkish; the
  field names below are their translations.
\<close>

definition array_mean :: "real list \<Rightarrow> real" where
  "array_mean xs = sum_list xs / real (length xs)"

definition array_std :: "real list \<Rightarrow> real" where
  "array_std xs = sqrt (array_mean (map (\<lambda>x. \<bar>x - array_mean xs\<bar>\<^sup>2) xs))"

record summary =
  mean_CC :: real
  std_CC :: real
  min_CC :: real
  max_CC :: real
  range_CC :: real
  mean_weight :: real
  max_weight :: real
  min_weight :: real

definition statistical_summary :: "real list \<Rightarrow> ranking_row list \<Rightarrow> error + summary" where
  "statistical_summary weights result_df =
     (let cc_values = map CC result_df in
      and_then (min_of cc_values) (\<lambda>cc_min.
      and_then (max_of cc_values) (\<lambda>cc_max.
      and_then (divide (sum_list weights) (length weights)) (\<lambda>w_mean.
      and_then (max_of weights) (\<lambda>w_max.
      and_then (min_of weights) (\<lambda>w_min.
      Inr \<lparr>mean_CC = array_mean cc_values, std_CC = array_std cc_values,
           min_CC = cc_min, max_CC = cc_max, range_CC = cc_max - cc_min,
           mean_weight = w_mean, max_weight = w_max, min_weight = w_min\<rparr>))))))"

text \<open>The sample estimator (divisor \<open>n - 1\<close>), which the code does not use.\<close>

definition sample_std :: "real list \<Rightarrow> real" where
  "sample_std xs = sqrt (sum_list (map (\<lambda>x. (x - array_mean xs)\<^sup>2) xs) / (real (length xs) - 1))"

section \<open>Agreement between the experts\<close>

text \<open>
  The levels are the strings the code returns, Turkish for high, medium and low
  (written here without their diacritics).
\<close>

datatype level = Yuksek | Orta | Dusuk

record agreement =
  avg_variance_reported :: real
  agreement_score :: real
  agreement_level :: level

text \<open>
  \<open>round(x, ndigits)\<close> rounds the double that the program holds, not the exact real
  \<open>x\<close>. Away from a tie both have the same nearest multiple of \<open>10^-ndigits\<close>. Where
  the exact real lies half-way between two multiples, the double lies on the tie or a
  little to either side of it, and the call returns one neighbour or the other: the
  model lists both. \<open>py_round x ndigits\<close> is the list of the values the call can
  return.
\<close>

definition nearest_integers :: "real \<Rightarrow> int list" where
  "nearest_integers y =
     (let f = \<lfloor>y\<rfloor>; d = y - of_int f
      in if d < 1 / 2 then [f] else if 1 / 2 < d then [f + 1] else [f, f + 1])"

definition py_round :: "real \<Rightarrow> nat \<Rightarrow> real list" where
  "py_round x ndigits = map (\<lambda>k. of_int k / 10 ^ ndigits) (nearest_integers (x * 10 ^ ndigits))"

text \<open>The variance contribution \<open>var\<close> of the cell \<open>(i, j)\<close>.\<close>

definition cell_variance :: "PFS list list list \<Rightarrow> nat \<Rightarrow> nat \<Rightarrow> error + real" where
  "cell_variance pfs_experts i j =
     (let k = length pfs_experts in
      and_then (expert_cells pfs_experts k i j mu) (\<lambda>mu_values.
      and_then (expert_cells pfs_experts k i j nu) (\<lambda>nu_values.
      and_then (divide (sum_list mu_values) (length mu_values)) (\<lambda>mu_avg.
      and_then (divide (sum_list nu_values) (length nu_values)) (\<lambda>nu_avg.
      and_then (divide (sum_list (map (\<lambda>a. (a - mu_avg)\<^sup>2) mu_values)) (length mu_values)) (\<lambda>mu_var.
      and_then (divide (sum_list (map (\<lambda>b. (b - nu_avg)\<^sup>2) nu_values)) (length nu_values)) (\<lambda>nu_var.
      Inr (mu_var + nu_var))))))))"

text \<open>
  The local variable \<open>avg_variance\<close>, before any rounding, for a non-empty expert list
  whose first matrix is non-empty.
\<close>

definition avg_variance :: "PFS list list list \<Rightarrow> error + real" where
  "avg_variance pfs_experts =
     (let n = length (pfs_experts ! 0);
          m = length (pfs_experts ! 0 ! 0)
      in and_then
           (comprehend (\<lambda>(i, j). cell_variance pfs_experts i j) (List.product [0..<n] [0..<m]))
           (\<lambda>variances.
              if variances \<noteq> [] then divide (sum_list variances) (length variances) else Inr 0))"

definition bucket :: "real \<Rightarrow> level" where
  "bucket v = (if v < 1 / 10 then Yuksek else if v < 2 / 10 then Orta else Dusuk)"

text \<open>
  \<open>expert_agreement_analysis pfs_experts r\<close>: the call may end with \<open>r\<close>. The two
  reported numbers are rounded, the level is read off the unrounded variance.
\<close>

definition expert_agreement_analysis :: "PFS list list list \<Rightarrow> error + agreement \<Rightarrow> bool" where
  "expert_agreement_analysis pfs_experts r =
     (if pfs_experts = [] \<or> pfs_experts ! 0 = []
      then r = Inr \<lparr>avg_variance_reported = 0, agreement_score = 1, agreement_level = Yuksek\<rparr>
      else (case avg_variance pfs_experts of
              Inl e \<Rightarrow> r = Inl e
            | Inr v \<Rightarrow>
                (case r of
                   Inl _ \<Rightarrow> False
                 | Inr report \<Rightarrow>
                     avg_variance_reported report \<in> set (py_round v 4) \<and>
                     agreement_score report \<in> set (py_round (1 - min v 1) 4) \<and>
                     agreement_level report = bucket v)))"

section \<open>The specification's formulas\<close>

text \<open>
  Written from the specification's words, for comparison with the code: the arithmetic
  mean of one component of the cell \<open>(i, j)\<close> over all experts, and the variance
  contribution \<open>var_ij = mean_e[(mu_e - mean_mu)\<^sup>2] + mean_e[(nu_e - mean_nu)\<^sup>2]\<close>.
\<close>

definition cell_mean :: "(PFS \<Rightarrow> real) \<Rightarrow> PFS list list list \<Rightarrow> nat \<Rightarrow> nat \<Rightarrow> real" where
  "cell_mean field pfs_experts i j =
     sum_list (map (\<lambda>matrix. field (matrix ! i ! j)) pfs_experts) / real (length pfs_experts)"

definition cell_variance_formula :: "PFS list list list \<Rightarrow> nat \<Rightarrow> nat \<Rightarrow> real" where
  "cell_variance_formula pfs_experts i j =
     sum_list (map (\<lambda>matrix. (mu (matrix ! i ! j) - cell_mean mu pfs_experts i j)\<^sup>2) pfs_experts)
       / real (length pfs_experts) +
     sum_list (map (\<lambda>matrix. (nu (matrix ! i ! j) - cell_mean nu pfs_experts i j)\<^sup>2) pfs_experts)
       / real (length pfs_experts)"

section \<open>Basic facts\<close>

lemma comprehend_total:
  "(\<And>x. x \<in> set xs \<Longrightarrow> f x = Inr (g x)) \<Longrightarrow> comprehend f xs = Inr (map g xs)"
  by (induction xs) simp_all

lemma comprehend_fails:
  "x \<in> set xs \<Longrightarrow> f x = Inl e \<Longrightarrow> (\<And>y. y \<in> set xs \<Longrightarrow> f y = Inl e \<or> isl (f y) = False)
    \<Longrightarrow> comprehend f xs = Inl e"
proof (induction xs)
  case Nil
  then show ?case by simp
next
  case (Cons a xs)
  show ?case
  proof (cases "f a")
    case (Inl e')
    with Cons.prems(3)[of a] show ?thesis by auto
  next
    case (Inr v)
    with Cons.prems have "x \<in> set xs" by auto
    with Cons have "comprehend f xs = Inl e" by auto
    with Inr show ?thesis by simp
  qed
qed

lemma foldl_times:
  "foldl (\<lambda>p j. p * f j) (a::real) js = a * prod_list (map f js)"
  by (induction js arbitrary: a) (simp_all add: mult.assoc)

lemma sum_list_divide:
  "sum_list (map (\<lambda>x. x / (c::real)) xs) = sum_list xs / c"
  by (induction xs) (simp_all add: add_divide_distrib)

section \<open>Construction of a fuzzy value\<close>

lemma new_PFS_cases:
  "new_PFS a b = (if a\<^sup>2 + b\<^sup>2 > 1 + 1 / 10 ^ 9 then Inl ValueError else Inr \<lparr>mu = a, nu = b\<rparr>)"
  by (simp add: new_PFS_def post_init_def)

text \<open>
  Claim C3, as the code has it: constructing a value from \<open>(mu, nu)\<close> fails, with
  ValueError, exactly when \<open>mu\<^sup>2 + nu\<^sup>2 > 1 + 1e-9\<close>; in every other case the value
  is returned with both components as given. No bound on a single component is checked.
\<close>

theorem new_PFS_fails_iff:
  "(new_PFS a b = Inl ValueError \<longleftrightarrow> a\<^sup>2 + b\<^sup>2 > 1 + 1 / 10 ^ 9) \<and>
   (new_PFS a b = Inr \<lparr>mu = a, nu = b\<rparr> \<longleftrightarrow> a\<^sup>2 + b\<^sup>2 \<le> 1 + 1 / 10 ^ 9) \<and>
   (\<forall>e. new_PFS a b = Inl e \<longrightarrow> e = ValueError)"
  by (simp add: new_PFS_cases)

theorem new_PFS_fails_iff_witness:
  "new_PFS 1 1 = Inl ValueError \<and> new_PFS (7 / 10) (7 / 10) = Inr \<lparr>mu = 7 / 10, nu = 7 / 10\<rparr>"
  using new_PFS_fails_iff [of 1 1] new_PFS_fails_iff [of "7 / 10" "7 / 10"]
  by (simp add: power2_eq_square)

text \<open>
  The claim as written fails: a negative membership degree with \<open>mu\<^sup>2 + nu\<^sup>2 \<le> 1\<close>
  lies outside \<open>[0, 1]\<close> and is accepted.
\<close>

theorem new_PFS_negative_mu_accepted:
  "new_PFS (- 1 / 2) 0 = Inr \<lparr>mu = - 1 / 2, nu = 0\<rparr> \<and> (- 1 / 2 :: real) < 0 \<and>
   (- 1 / 2 :: real)\<^sup>2 + 0\<^sup>2 \<le> 1"
  by (simp add: new_PFS_cases power2_eq_square)

section \<open>The weight vector\<close>

lemma cell_mu_map:
  "and_then (item M i) (\<lambda>row. and_then (item row j) (\<lambda>c. Inr (mu c)))
     = and_then (item (map (map mu) M) i) (\<lambda>r. item r j)"
  by (simp add: item_def and_then_def)

lemma fahp_weights_reads_mu:
  "fahp_weights M = fahp_weights (map (map (\<lambda>c. \<lparr>mu = mu c, nu = 0\<rparr>)) M)"
  unfolding fahp_weights_def cell_mu_map by (simp add: comp_def)

lemma fahp_weights_mu_only:
  assumes "map (map mu) M' = map (map mu) M"
  shows "fahp_weights M' = fahp_weights M"
proof -
  have "map (map (\<lambda>c. \<lparr>mu = mu c, nu = 0\<rparr>)) N = map (map (\<lambda>m. \<lparr>mu = m, nu = 0\<rparr>)) (map (map mu) N)" for N :: "PFS list list"
    by (simp add: comp_def)
  with assms have "map (map (\<lambda>c. \<lparr>mu = mu c, nu = 0\<rparr>)) M' = map (map (\<lambda>c. \<lparr>mu = mu c, nu = 0\<rparr>)) M"
    by metis
  then show ?thesis
    using fahp_weights_reads_mu [of M] fahp_weights_reads_mu [of M'] by simp
qed

lemma fahp_S:
  assumes "\<And>row. row \<in> set M \<Longrightarrow> n \<le> length row" "n \<le> length M"
  shows "comprehend (\<lambda>i. comprehend (\<lambda>j.
            and_then (item M i) (\<lambda>row.
            and_then (item row j) (\<lambda>c. Inr (mu c)))) [0..<n]) [0..<n]
         = Inr (map (\<lambda>i. map (\<lambda>j. mu (M ! i ! j)) [0..<n]) [0..<n])"
proof (rule comprehend_total)
  fix i assume "i \<in> set [0..<n]"
  then have i: "i < length M" and r: "n \<le> length (M ! i)" using assms by auto
  show "comprehend (\<lambda>j. and_then (item M i) (\<lambda>row. and_then (item row j) (\<lambda>c. Inr (mu c)))) [0..<n]
        = Inr (map (\<lambda>j. mu (M ! i ! j)) [0..<n])"
    by (rule comprehend_total) (use i r in \<open>simp add: item_def and_then_def\<close>)
qed

lemma float_pow_root:
  "0 \<le> x \<Longrightarrow> 0 < y \<Longrightarrow> float_pow x y = Inr (x powr y)"
  by (simp add: float_pow_def)

lemma row_product:
  assumes "i < n" "n = length M" "length (M ! i) = n"
  shows "foldl (\<lambda>prod j. prod * (map (\<lambda>i. map (\<lambda>j. mu (M ! i ! j)) [0..<n]) [0..<n]) ! i ! j) 1 [0..<n]
         = prod_list (map mu (M ! i))"
proof -
  have "map (\<lambda>j. (map (\<lambda>i. map (\<lambda>j. mu (M ! i ! j)) [0..<n]) [0..<n]) ! i ! j) [0..<n]
        = map (\<lambda>j. mu (M ! i ! j)) [0..<n]"
    using assms by simp
  also have "\<dots> = map mu (map (\<lambda>j. M ! i ! j) [0..<length (M ! i)])"
    using assms by (simp add: comp_def)
  also have "\<dots> = map mu (M ! i)" by (simp only: map_nth)
  finally show ?thesis by (simp add: foldl_times)
qed

lemma fahp_g:
  assumes sq: "\<And>row. row \<in> set M \<Longrightarrow> length row = length M"
    and nn: "\<And>row. row \<in> set M \<Longrightarrow> 0 \<le> prod_list (map mu row)"
    and n: "n = length M"
  shows "comprehend (\<lambda>i. float_pow
            (foldl (\<lambda>prod j. prod * (map (\<lambda>i. map (\<lambda>j. mu (M ! i ! j)) [0..<n]) [0..<n]) ! i ! j) 1 [0..<n])
            (1 / real n)) [0..<n]
         = Inr (map geometric_mean_mu M)"
proof -
  have "comprehend (\<lambda>i. float_pow
            (foldl (\<lambda>prod j. prod * (map (\<lambda>i. map (\<lambda>j. mu (M ! i ! j)) [0..<n]) [0..<n]) ! i ! j) 1 [0..<n])
            (1 / real n)) [0..<n]
        = Inr (map (\<lambda>i. geometric_mean_mu (M ! i)) [0..<n])"
  proof (rule comprehend_total)
    fix i assume "i \<in> set [0..<n]"
    then have i: "i < n" by simp
    then have mem: "M ! i \<in> set M" using n by simp
    have len: "length (M ! i) = n" using sq [OF mem] n by simp
    have "0 < 1 / real n" using i by simp
    then show "float_pow
            (foldl (\<lambda>prod j. prod * (map (\<lambda>i. map (\<lambda>j. mu (M ! i ! j)) [0..<n]) [0..<n]) ! i ! j) 1 [0..<n])
            (1 / real n) = Inr (geometric_mean_mu (M ! i))"
      unfolding row_product [OF i n len] geometric_mean_mu_def len
      using nn [OF mem] by (simp only: float_pow_root)
  qed
  also have "map (\<lambda>i. geometric_mean_mu (M ! i)) [0..<n] = map geometric_mean_mu M"
  proof -
    have "map (\<lambda>i. geometric_mean_mu (M ! i)) [0..<n] = map geometric_mean_mu (map (nth M) [0..<length M])"
      unfolding n by (simp add: comp_def)
    then show ?thesis by (simp only: map_nth)
  qed
  finally show ?thesis .
qed

lemma fahp_weights_square:
  assumes sq: "\<And>row. row \<in> set M \<Longrightarrow> length row = length M"
    and nn: "\<And>row. row \<in> set M \<Longrightarrow> 0 \<le> prod_list (map mu row)"
    and ne: "M \<noteq> []"
  shows "fahp_weights M =
     Inr (if sum_list (map geometric_mean_mu M) = 0
          then replicate (length M) (1 / real (length M))
          else map (\<lambda>gi. gi / sum_list (map geometric_mean_mu M)) (map geometric_mean_mu M))"
proof -
  have S: "comprehend (\<lambda>i. comprehend (\<lambda>j.
            and_then (item M i) (\<lambda>row.
            and_then (item row j) (\<lambda>c. Inr (mu c)))) [0..<length M]) [0..<length M]
         = Inr (map (\<lambda>i. map (\<lambda>j. mu (M ! i ! j)) [0..<length M]) [0..<length M])"
    by (rule fahp_S) (use sq in auto)
  show ?thesis
    unfolding fahp_weights_def Let_def S
    using ne by (simp add: and_then_def fahp_g [OF sq nn refl])
qed

lemma geometric_mean_mu_nonneg: "0 \<le> geometric_mean_mu row"
  by (simp add: geometric_mean_mu_def)

lemma nonneg_products:
  assumes "\<forall>row\<in>set M. \<forall>c\<in>set row. 0 \<le> mu c" "row \<in> set M"
  shows "0 \<le> prod_list (map mu row)"
  using assms by (intro prod_list_nonneg) auto

lemma normalised_sum:
  assumes "sum_list (gs::real list) \<noteq> 0"
  shows "sum_list (map (\<lambda>gi. gi / sum_list gs) gs) = 1"
  using assms by (simp add: sum_list_divide)

lemma sum_list_all_zero:
  "(\<And>x. x \<in> set xs \<Longrightarrow> f x = (0::real)) \<Longrightarrow> sum_list (map f xs) = 0"
  by (induction xs) simp_all

lemma uniform_sum: "0 < n \<Longrightarrow> sum_list (replicate n (1 / real n)) = 1"
  by (simp add: sum_list_replicate)

text \<open>
  Claim C1. For a square matrix of size \<open>N \<ge> 1\<close> whose membership degrees are not
  negative (as they are in every valid matrix), \<open>fahp_weights\<close> returns a vector of
  length \<open>N\<close>. Where the sum of the rows' geometric means of \<open>mu\<close> is not zero, so
  that the quotient is defined, entry \<open>i\<close> is \<open>g_i / \<Sum> g\<close>. In every case the
  vector sums to exactly 1, hence to 1 within \<open>1e-9\<close>, and has no negative entry. The
  result depends on the \<open>mu\<close> components only: a matrix with the same \<open>mu\<close> and any
  other \<open>nu\<close> yields the same vector.
\<close>

theorem fahp_weights_normalised:
  assumes ne: "M \<noteq> []"
    and sq: "\<forall>row\<in>set M. length row = length M"
    and valid: "\<forall>row\<in>set M. \<forall>c\<in>set row. 0 \<le> mu c"
  shows "\<exists>ws. fahp_weights M = Inr ws \<and> length ws = length M \<and>
           (sum_list (map geometric_mean_mu M) \<noteq> 0 \<longrightarrow>
              ws = map (\<lambda>row. geometric_mean_mu row / sum_list (map geometric_mean_mu M)) M) \<and>
           sum_list ws = 1 \<and> \<bar>sum_list ws - 1\<bar> \<le> 1 / 10 ^ 9 \<and>
           (\<forall>w\<in>set ws. 0 \<le> w) \<and>
           (\<forall>M'. map (map mu) M' = map (map mu) M \<longrightarrow> fahp_weights M' = Inr ws)"
proof -
  let ?g = "map geometric_mean_mu M"
  let ?ws = "if sum_list ?g = 0 then replicate (length M) (1 / real (length M))
             else map (\<lambda>gi. gi / sum_list ?g) ?g"
  have run: "fahp_weights M = Inr ?ws"
    by (rule fahp_weights_square) (use ne sq nonneg_products [OF valid] in auto)
  have len: "length ?ws = length M" by simp
  have formula: "sum_list ?g \<noteq> 0 \<longrightarrow>
      ?ws = map (\<lambda>row. geometric_mean_mu row / sum_list ?g) M"
    by (simp add: comp_def)
  have pos: "0 < length M" using ne by simp
  have total: "sum_list ?ws = 1"
    using normalised_sum [of ?g] uniform_sum [OF pos] by (cases "sum_list ?g = 0") simp_all
  have g0: "0 \<le> sum_list ?g"
    by (rule sum_list_nonneg) (auto simp: geometric_mean_mu_nonneg)
  have nonneg: "\<forall>w\<in>set ?ws. 0 \<le> w"
    using g0 by (auto simp: geometric_mean_mu_nonneg)
  have only_mu: "\<forall>M'. map (map mu) M' = map (map mu) M \<longrightarrow> fahp_weights M' = Inr ?ws"
    using fahp_weights_mu_only run by metis
  from run len formula total nonneg only_mu show ?thesis
    by (intro exI [of _ ?ws] conjI) simp_all
qed

theorem fahp_weights_normalised_witness:
  "fahp_weights [[\<lparr>mu = 1, nu = 0\<rparr>, \<lparr>mu = 1, nu = 0\<rparr>], [\<lparr>mu = 0, nu = 1\<rparr>, \<lparr>mu = 1, nu = 0\<rparr>]]
     = Inr [1, 0] \<and>
   fahp_weights [[\<lparr>mu = 1, nu = 1 / 2\<rparr>, \<lparr>mu = 1, nu = 1\<rparr>], [\<lparr>mu = 0, nu = 0\<rparr>, \<lparr>mu = 1, nu = 1 / 3\<rparr>]]
     = Inr [1, 0]"
  using fahp_weights_normalised
    [of "[[\<lparr>mu = 1, nu = 0\<rparr>, \<lparr>mu = 1, nu = 0\<rparr>], [\<lparr>mu = 0, nu = 1\<rparr>, \<lparr>mu = 1, nu = 0\<rparr>]]"]
  by (simp add: geometric_mean_mu_def)

text \<open>
  Claim C6. For an \<open>N \<times> N\<close> matrix, \<open>N \<ge> 1\<close>, in which the geometric means of the
  rows sum to zero, \<open>fahp_weights\<close> returns \<open>N\<close> times \<open>1 / N\<close>; in particular it
  does so for a matrix whose every cell has \<open>mu = 0\<close>.
\<close>

theorem fahp_weights_uniform:
  assumes ne: "M \<noteq> []"
    and sq: "\<forall>row\<in>set M. length row = length M"
  shows "((\<forall>row\<in>set M. \<forall>c\<in>set row. 0 \<le> mu c) \<and> sum_list (map geometric_mean_mu M) = 0
            \<longrightarrow> fahp_weights M = Inr (replicate (length M) (1 / real (length M)))) \<and>
         ((\<forall>row\<in>set M. \<forall>c\<in>set row. mu c = 0)
            \<longrightarrow> fahp_weights M = Inr (replicate (length M) (1 / real (length M))))"
proof (intro conjI impI)
  assume h: "(\<forall>row\<in>set M. \<forall>c\<in>set row. 0 \<le> mu c) \<and> sum_list (map geometric_mean_mu M) = 0"
  then have "fahp_weights M = Inr (if sum_list (map geometric_mean_mu M) = 0
          then replicate (length M) (1 / real (length M))
          else map (\<lambda>gi. gi / sum_list (map geometric_mean_mu M)) (map geometric_mean_mu M))"
    by (intro fahp_weights_square) (use ne sq nonneg_products in auto)
  with h show "fahp_weights M = Inr (replicate (length M) (1 / real (length M)))" by simp
next
  assume z: "\<forall>row\<in>set M. \<forall>c\<in>set row. mu c = 0"
  have zero: "geometric_mean_mu row = 0" if "row \<in> set M" for row
  proof -
    from that sq ne have "row \<noteq> []" by auto
    then obtain c cs where "row = c # cs" by (cases row) auto
    with z that have "prod_list (map mu row) = 0" by auto
    then show ?thesis by (simp add: geometric_mean_mu_def)
  qed
  then have s: "sum_list (map geometric_mean_mu M) = 0" by (rule sum_list_all_zero)
  have "fahp_weights M = Inr (if sum_list (map geometric_mean_mu M) = 0
          then replicate (length M) (1 / real (length M))
          else map (\<lambda>gi. gi / sum_list (map geometric_mean_mu M)) (map geometric_mean_mu M))"
  proof (intro fahp_weights_square)
    from z have v: "\<forall>row\<in>set M. \<forall>c\<in>set row. 0 \<le> mu c" by simp
    show "0 \<le> prod_list (map mu row)" if "row \<in> set M" for row
      using nonneg_products [OF v that] .
  qed (use ne sq in auto)
  with s show "fahp_weights M = Inr (replicate (length M) (1 / real (length M)))" by simp
qed

theorem fahp_weights_uniform_witness:
  "fahp_weights [[\<lparr>mu = 0, nu = 1\<rparr>, \<lparr>mu = 0, nu = 0\<rparr>], [\<lparr>mu = 0, nu = 0\<rparr>, \<lparr>mu = 0, nu = 1 / 2\<rparr>]]
     = Inr [1 / 2, 1 / 2] \<and>
   fahp_weights [[\<lparr>mu = 0, nu = 1\<rparr>, \<lparr>mu = 1, nu = 0\<rparr>], [\<lparr>mu = 1, nu = 0\<rparr>, \<lparr>mu = 0, nu = 1 / 2\<rparr>]]
     = Inr [1 / 2, 1 / 2]"
  using fahp_weights_uniform
    [of "[[\<lparr>mu = 0, nu = 1\<rparr>, \<lparr>mu = 0, nu = 0\<rparr>], [\<lparr>mu = 0, nu = 0\<rparr>, \<lparr>mu = 0, nu = 1 / 2\<rparr>]]"]
   fahp_weights_uniform
    [of "[[\<lparr>mu = 0, nu = 1\<rparr>, \<lparr>mu = 1, nu = 0\<rparr>], [\<lparr>mu = 1, nu = 0\<rparr>, \<lparr>mu = 0, nu = 1 / 2\<rparr>]]"]
  by (simp add: geometric_mean_mu_def)

section \<open>The ranking\<close>

lemma score_matrix_ok:
  assumes "length M = m" "\<And>row. row \<in> set M \<Longrightarrow> n \<le> length row"
  shows "score_matrix M m n = Inr (map (\<lambda>i. map (\<lambda>j. score (M ! i ! j)) [0..<n]) [0..<m])"
  unfolding score_matrix_def
proof (rule comprehend_total)
  fix i assume "i \<in> set [0..<m]"
  then have i: "i < length M" and r: "n \<le> length (M ! i)" using assms by auto
  show "comprehend (\<lambda>j. and_then (item M i) (\<lambda>row. and_then (item row j) (\<lambda>c. Inr (score c)))) [0..<n]
        = Inr (map (\<lambda>j. score (M ! i ! j)) [0..<n])"
    by (rule comprehend_total) (use i r in \<open>simp add: item_def and_then_def\<close>)
qed

lemma normalize_Suc: "normalize S m (Suc k) = normalize_column S m (normalize S m k) k"
  by (simp add: normalize_def)

lemma normalize_closed:
  "0 < n \<Longrightarrow> normalize S m n = map (\<lambda>i. map (\<lambda>j. S ! i ! j / denom S m j) [0..<n]) [0..<m]"
proof (induction n)
  case 0
  then show ?case by simp
next
  case (Suc k)
  show ?case
  proof (cases "k = 0")
    case True
    then show ?thesis
      by (simp add: normalize_def normalize_column_def)
  next
    case False
    then have "normalize S m k = map (\<lambda>i. map (\<lambda>j. S ! i ! j / denom S m j) [0..<k]) [0..<m]"
      using Suc.IH by simp
    then show ?thesis
      using False by (simp add: normalize_Suc normalize_column_def)
  qed
qed

lemma normalize_cell:
  "i < m \<Longrightarrow> j < n \<Longrightarrow> normalize S m n ! i ! j = S ! i ! j / denom S m j"
  by (simp add: normalize_closed)

lemma sum_list_squares_zero:
  "sum_list (map (\<lambda>i. (f i :: real)\<^sup>2) is) = 0 \<Longrightarrow> i \<in> set is \<Longrightarrow> f i = 0"
proof (induction "is")
  case Nil
  then show ?case by simp
next
  case (Cons a as)
  have "0 \<le> sum_list (map (\<lambda>i. (f i)\<^sup>2) as)" by (rule sum_list_nonneg) auto
  moreover have "0 \<le> (f a)\<^sup>2" by simp
  ultimately have "(f a)\<^sup>2 = 0 \<and> sum_list (map (\<lambda>i. (f i)\<^sup>2) as) = 0"
    using Cons.prems(1) by (simp add: add_nonneg_eq_0_iff)
  with Cons show ?case by auto
qed

lemma zero_norm_column:
  assumes "sqrt (sum_list (map (\<lambda>i. (S ! i ! j)\<^sup>2) [0..<m])) = 0"
  shows "denom S m j = 1" and "i < m \<Longrightarrow> S ! i ! j = 0"
proof -
  show "denom S m j = 1" using assms by (simp add: denom_def)
  have "sum_list (map (\<lambda>i. (S ! i ! j)\<^sup>2) [0..<m]) = 0" using assms by simp
  then show "i < m \<Longrightarrow> S ! i ! j = 0"
    using sum_list_squares_zero [of "\<lambda>i. S ! i ! j" "[0..<m]" i] by simp
qed

lemma weighted_ok:
  "n \<le> length w \<Longrightarrow>
   weighted R w m n = Inr (map (\<lambda>i. map (\<lambda>j. R ! i ! j * w ! j) [0..<n]) [0..<m])"
  unfolding weighted_def
  by (intro comprehend_total) (simp add: item_def and_then_def)

lemma weighted_short:
  assumes "length w < n" "0 < m"
  shows "weighted R w m n = Inl IndexError"
proof -
  have row: "comprehend (\<lambda>j. and_then (item w j) (\<lambda>x. Inr (R ! i ! j * x))) [0..<n] = Inl IndexError" for i
    by (rule comprehend_fails [where x = "length w"])
       (use assms in \<open>auto simp: item_def and_then_def\<close>)
  have "[0..<m] = 0 # [1..<m]" using assms by (simp add: upt_conv_Cons)
  then show ?thesis unfolding weighted_def by (simp add: row)
qed

lemma max_of_ok: "xs \<noteq> [] \<Longrightarrow> max_of xs = Inr (foldl max (hd xs) (tl xs))"
  by (cases xs) (simp_all add: max_of_def)

lemma min_of_ok: "xs \<noteq> [] \<Longrightarrow> min_of xs = Inr (foldl min (hd xs) (tl xs))"
  by (cases xs) (simp_all add: min_of_def)

lemma ideals_ok:
  assumes "0 < m"
  shows "\<exists>vp. comprehend (\<lambda>j. max_of (map (\<lambda>i. V ! i ! j) [0..<m])) [0..<n] = Inr vp"
    and "\<exists>vm. comprehend (\<lambda>j. min_of (map (\<lambda>i. V ! i ! j) [0..<m])) [0..<n] = Inr vm"
proof -
  have ne: "map (\<lambda>i. V ! i ! j) [0..<m] \<noteq> []" for j using assms by simp
  show "\<exists>vp. comprehend (\<lambda>j. max_of (map (\<lambda>i. V ! i ! j) [0..<m])) [0..<n] = Inr vp"
    using comprehend_total [of "[0..<n]" "\<lambda>j. max_of (map (\<lambda>i. V ! i ! j) [0..<m])"
        "\<lambda>j. foldl max (hd (map (\<lambda>i. V ! i ! j) [0..<m])) (tl (map (\<lambda>i. V ! i ! j) [0..<m]))"]
      max_of_ok [OF ne] by blast
  show "\<exists>vm. comprehend (\<lambda>j. min_of (map (\<lambda>i. V ! i ! j) [0..<m])) [0..<n] = Inr vm"
    using comprehend_total [of "[0..<n]" "\<lambda>j. min_of (map (\<lambda>i. V ! i ! j) [0..<m])"
        "\<lambda>j. foldl min (hd (map (\<lambda>i. V ! i ! j) [0..<m])) (tl (map (\<lambda>i. V ! i ! j) [0..<m]))"]
      min_of_ok [OF ne] by blast
qed

lemma ranking_frame_ok:
  assumes "0 < m" "length a = m"
  shows "\<exists>df. ranking_frame V m n a = Inr df"
proof -
  obtain vp vm where
    "comprehend (\<lambda>j. max_of (map (\<lambda>i. V ! i ! j) [0..<m])) [0..<n] = Inr vp"
    "comprehend (\<lambda>j. min_of (map (\<lambda>i. V ! i ! j) [0..<m])) [0..<n] = Inr vm"
    using ideals_ok [OF assms(1)] by blast
  then show ?thesis using assms(2) by (simp add: ranking_frame_def and_then_def Let_def)
qed

lemma ranking_frame_labels:
  assumes "0 < m" "length a \<noteq> m"
  shows "ranking_frame V m n a = Inl ValueError"
proof -
  obtain vp vm where
    "comprehend (\<lambda>j. max_of (map (\<lambda>i. V ! i ! j) [0..<m])) [0..<n] = Inr vp"
    "comprehend (\<lambda>j. min_of (map (\<lambda>i. V ! i ! j) [0..<m])) [0..<n] = Inr vm"
    using ideals_ok [OF assms(1)] by blast
  then show ?thesis using assms(2) by (simp add: ranking_frame_def and_then_def Let_def)
qed

lemma ranking_frame_rows:
  assumes "ranking_frame V m n a = Inr df"
  shows "map Alternative df = a" and "length df = m"
    and "\<And>r. r \<in> set df \<Longrightarrow> CC r = closeness (D_plus r) (D_minus r)"
proof -
  from assms obtain vp vm where df: "length a = m"
    "df = map (\<lambda>i. \<lparr>Alternative = a ! i, D_plus = map (distance V vp n) [0..<m] ! i,
                   D_minus = map (distance V vm n) [0..<m] ! i,
                   CC = map (\<lambda>i. closeness (map (distance V vp n) [0..<m] ! i)
                                   (map (distance V vm n) [0..<m] ! i)) [0..<m] ! i\<rparr>) [0..<m]"
    by (auto simp: ranking_frame_def and_then_def Let_def split: sum.splits if_splits)
  show "length df = m" using df by simp
  have "map Alternative df = map (nth a) [0..<length a]" using df by (simp add: comp_def)
  then show "map Alternative df = a" by (simp only: map_nth)
  show "CC r = closeness (D_plus r) (D_minus r)" if "r \<in> set df" for r
    using that df(2) by auto
qed

lemma ftopsis_frame_unfold:
  assumes "M \<noteq> []" "\<And>row. row \<in> set M \<Longrightarrow> length (hd M) \<le> length row"
  shows "ftopsis_frame M w a =
     and_then (weighted (normalize (map (\<lambda>i. map (\<lambda>j. score (M ! i ! j)) [0..<length (hd M)]) [0..<length M])
                                   (length M) (length (hd M)))
                        w (length M) (length (hd M)))
       (\<lambda>V. ranking_frame V (length M) (length (hd M)) a)"
proof -
  have "item M 0 = Inr (hd M)" using assms(1) by (cases M) (simp_all add: item_def)
  then show ?thesis
    unfolding ftopsis_frame_def Let_def
    by (simp add: and_then_def score_matrix_ok [OF refl assms(2)])
qed

lemma upt_2: "[0..<2] = [0, Suc 0]"
  by (simp add: upt_rec numeral_2_eq_2)

lemma frame_surplus_weight:
  "ftopsis_frame [[\<lparr>mu = 0, nu = 0\<rparr>], [\<lparr>mu = 1, nu = 0\<rparr>]] [1, 7] [''B1'', ''B2'']
     = Inr [\<lparr>Alternative = ''B1'', D_plus = 1, D_minus = 0, CC = 0\<rparr>,
            \<lparr>Alternative = ''B2'', D_plus = 0, D_minus = 1, CC = 1\<rparr>]"
  by (simp add: ftopsis_frame_def item_def and_then_def score_matrix_def score_def
      normalize_def normalize_column_def denom_def weighted_def ranking_frame_def
      max_of_def min_of_def distance_def closeness_def upt_2 Let_def)

lemma ftopsis_frame_runs:
  assumes "M \<noteq> []" "\<forall>row\<in>set M. length (hd M) \<le> length row"
    "length (hd M) \<le> length w" "length a = length M"
  shows "\<exists>df. ftopsis_frame M w a = Inr df"
proof -
  have m: "0 < length M" using assms(1) by simp
  show ?thesis
    using assms(2) ranking_frame_ok [OF m assms(4)]
    by (simp add: ftopsis_frame_unfold [OF assms(1)] weighted_ok [OF assms(3)] and_then_def)
qed

lemma ftopsis_frame_rows:
  assumes "ftopsis_frame M w a = Inr df"
  shows "map Alternative df = a" and "length df = length M"
    and "\<And>r. r \<in> set df \<Longrightarrow> CC r = closeness (D_plus r) (D_minus r)"
proof -
  from assms obtain V n where V: "ranking_frame V (length M) n a = Inr df"
    by (auto simp: ftopsis_frame_def and_then_def Let_def split: sum.splits)
  show "map Alternative df = a" and "length df = length M"
    and "\<And>r. r \<in> set df \<Longrightarrow> CC r = closeness (D_plus r) (D_minus r)"
    using ranking_frame_rows [OF V] by auto
qed

lemma ftopsis_Inr:
  "ftopsis M w a (Inr out) \<longleftrightarrow>
     (\<exists>df. ftopsis_frame M w a = Inr df \<and> sort_values_CC_descending df out)"
  by (simp add: ftopsis_def split: sum.splits)

lemma ftopsis_Inl:
  "ftopsis M w a (Inl e) \<longleftrightarrow> ftopsis_frame M w a = Inl e"
  by (auto simp: ftopsis_def split: sum.splits)

lemma stable_sort_admitted:
  "sort_values_CC_descending df (sort_key (\<lambda>r. - CC r) df)"
proof -
  have "sorted (map (\<lambda>r. - CC r) (sort_key (\<lambda>r. - CC r) df))" by (rule sorted_sort_key)
  then show ?thesis
    by (simp add: sort_values_CC_descending_def sorted_wrt_map)
qed

text \<open>
  Claim C2, as the code has it. Every table \<open>ftopsis\<close> may return is in descending
  order of CC, has one row per row of the input matrix, and carries the input's labels,
  each as often as it was given. A table exists, and no failure is possible, when the
  matrix is not empty, no row is shorter than the first, there is a weight for every
  column and a label for every row. The table in which rows of equal CC keep their
  input order is one of the possible results; the code does not ask the library for a
  stable sort, so it is not the only one.
\<close>

theorem ftopsis_sorted_descending:
  "(\<forall>out. ftopsis M w a (Inr out) \<longrightarrow>
       sorted_wrt (\<lambda>x y. CC y \<le> CC x) out \<and>
       mset (map Alternative out) = mset a \<and> length out = length M) \<and>
   (\<forall>df. ftopsis_frame M w a = Inr df \<longrightarrow> ftopsis M w a (Inr (sort_key (\<lambda>r. - CC r) df))) \<and>
   (M \<noteq> [] \<and> (\<forall>row\<in>set M. length (hd M) \<le> length row) \<and>
    length (hd M) \<le> length w \<and> length a = length M \<longrightarrow>
      (\<exists>out. ftopsis M w a (Inr out)) \<and> (\<forall>e. \<not> ftopsis M w a (Inl e)))"
proof (intro conjI allI impI)
  fix out assume "ftopsis M w a (Inr out)"
  then obtain df where df: "ftopsis_frame M w a = Inr df" "sort_values_CC_descending df out"
    by (auto simp: ftopsis_Inr)
  then have ms: "mset out = mset df" and srt: "sorted_wrt (\<lambda>x y. CC y \<le> CC x) out"
    by (simp_all add: sort_values_CC_descending_def)
  show "sorted_wrt (\<lambda>x y. CC y \<le> CC x) out" by (rule srt)
  have "mset (map Alternative out) = mset (map Alternative df)"
    using ms by (metis mset_map)
  then show "mset (map Alternative out) = mset a"
    using ftopsis_frame_rows(1) [OF df(1)] by simp
  show "length out = length M"
    using ms ftopsis_frame_rows(2) [OF df(1)] by (metis size_mset)
next
  fix df assume "ftopsis_frame M w a = Inr df"
  then show "ftopsis M w a (Inr (sort_key (\<lambda>r. - CC r) df))"
    using stable_sort_admitted by (auto simp: ftopsis_Inr)
next
  assume h: "M \<noteq> [] \<and> (\<forall>row\<in>set M. length (hd M) \<le> length row) \<and>
    length (hd M) \<le> length w \<and> length a = length M"
  then obtain df where df: "ftopsis_frame M w a = Inr df"
    using ftopsis_frame_runs [of M w a] by blast
  then show "\<exists>out. ftopsis M w a (Inr out)"
    using stable_sort_admitted by (auto simp: ftopsis_Inr)
next
  fix e
  assume h: "M \<noteq> [] \<and> (\<forall>row\<in>set M. length (hd M) \<le> length row) \<and>
    length (hd M) \<le> length w \<and> length a = length M"
  then obtain df where df: "ftopsis_frame M w a = Inr df"
    using ftopsis_frame_runs [of M w a] by blast
  then show "\<not> ftopsis M w a (Inl e)" by (simp add: ftopsis_Inl)
qed

theorem ftopsis_sorted_descending_witness:
  "\<exists>out. ftopsis [[\<lparr>mu = 0, nu = 0\<rparr>], [\<lparr>mu = 1, nu = 0\<rparr>]] [1] [''B1'', ''B2''] (Inr out) \<and>
         sorted_wrt (\<lambda>x y. CC y \<le> CC x) out \<and>
         mset (map Alternative out) = mset [''B1'', ''B2''] \<and> length out = 2"
proof -
  let ?M = "[[\<lparr>mu = 0, nu = 0\<rparr>], [\<lparr>mu = 1, nu = 0\<rparr>]]"
  note t = ftopsis_sorted_descending [of ?M "[1]" "[''B1'', ''B2'']"]
  have shape: "?M \<noteq> [] \<and> (\<forall>row\<in>set ?M. length (hd ?M) \<le> length row) \<and>
      length (hd ?M) \<le> length [1::real] \<and> length [''B1'', ''B2''] = length ?M"
    by simp
  with t obtain out where out: "ftopsis ?M [1] [''B1'', ''B2''] (Inr out)" by blast
  with t have "sorted_wrt (\<lambda>x y. CC y \<le> CC x) out \<and>
      mset (map Alternative out) = mset [''B1'', ''B2''] \<and> length out = length ?M"
    by blast
  with out show ?thesis by auto
qed

text \<open>
  Rows that tie. When every row of a one-column matrix is the same cell of score 0, all
  distances and all CC are 0, and any rearrangement of the frame is in descending
  order of CC.
\<close>

lemma foldl_max_const: "(\<And>x. x \<in> set xs \<Longrightarrow> x = c) \<Longrightarrow> foldl max (c::real) xs = c"
proof (induction xs)
  case Nil
  then show ?case by simp
next
  case (Cons a xs)
  have a: "a = c" by (rule Cons.prems) simp
  have "foldl max c xs = c" by (rule Cons.IH) (rule Cons.prems, simp)
  then show ?case by (simp add: a)
qed

lemma foldl_min_const: "(\<And>x. x \<in> set xs \<Longrightarrow> x = c) \<Longrightarrow> foldl min (c::real) xs = c"
proof (induction xs)
  case Nil
  then show ?case by simp
next
  case (Cons a xs)
  have a: "a = c" by (rule Cons.prems) simp
  have "foldl min c xs = c" by (rule Cons.IH) (rule Cons.prems, simp)
  then show ?case by (simp add: a)
qed

lemma max_of_const:
  assumes "xs \<noteq> []" "\<And>x. x \<in> set xs \<Longrightarrow> x = c"
  shows "max_of xs = Inr c"
proof -
  obtain y ys where xs: "xs = y # ys" using assms(1) by (cases xs) auto
  have y: "y = c" by (rule assms(2)) (simp add: xs)
  have "foldl max c ys = c" by (rule foldl_max_const) (rule assms(2), simp add: xs)
  then show ?thesis unfolding xs by (simp add: max_of_def y)
qed

lemma min_of_const:
  assumes "xs \<noteq> []" "\<And>x. x \<in> set xs \<Longrightarrow> x = c"
  shows "min_of xs = Inr c"
proof -
  obtain y ys where xs: "xs = y # ys" using assms(1) by (cases xs) auto
  have y: "y = c" by (rule assms(2)) (simp add: xs)
  have "foldl min c ys = c" by (rule foldl_min_const) (rule assms(2), simp add: xs)
  then show ?thesis unfolding xs by (simp add: min_of_def y)
qed

lemma zero_frame:
  assumes n: "0 < n" and L: "length L = n"
  shows "ranking_frame (replicate n [0]) n 1 L
         = Inr (map (\<lambda>l. \<lparr>Alternative = l, D_plus = 0, D_minus = 0, CC = 0\<rparr>) L)"
proof -
  let ?V = "replicate n [0::real]"
  have col: "map (\<lambda>i. ?V ! i ! j) [0..<n] \<noteq> []" for j using n by simp
  have vp: "comprehend (\<lambda>j. max_of (map (\<lambda>i. ?V ! i ! j) [0..<n])) [0..<1] = Inr (map (\<lambda>j. 0) [0..<1])"
  proof (rule comprehend_total)
    fix j :: nat assume "j \<in> set [0..<1]"
    then have j: "j = 0" by simp
    show "max_of (map (\<lambda>i. ?V ! i ! j) [0..<n]) = Inr 0"
      by (rule max_of_const [OF col]) (use j in auto)
  qed
  have vm: "comprehend (\<lambda>j. min_of (map (\<lambda>i. ?V ! i ! j) [0..<n])) [0..<1] = Inr (map (\<lambda>j. 0) [0..<1])"
  proof (rule comprehend_total)
    fix j :: nat assume "j \<in> set [0..<1]"
    then have j: "j = 0" by simp
    show "min_of (map (\<lambda>i. ?V ! i ! j) [0..<n]) = Inr 0"
      by (rule min_of_const [OF col]) (use j in auto)
  qed
  have ideal: "map (\<lambda>j. 0::real) [0..<1] = [0]" by simp
  have d: "distance ?V [0] 1 i = 0" if "i < n" for i
    using that by (simp add: distance_def)
  have Dp: "map (distance ?V [0] 1) [0..<n] = replicate n 0"
    using d by (simp add: list_eq_iff_nth_eq)
  have C: "map (\<lambda>i. closeness (replicate n 0 ! i) (replicate n 0 ! i)) [0..<n] = replicate n 0"
    by (simp add: list_eq_iff_nth_eq closeness_def)
  have rows: "map (\<lambda>i. \<lparr>Alternative = L ! i, D_plus = replicate n 0 ! i,
                  D_minus = replicate n 0 ! i, CC = replicate n 0 ! i\<rparr>) [0..<n]
        = map (\<lambda>l. \<lparr>Alternative = l, D_plus = 0, D_minus = 0, CC = 0\<rparr>) L"
    using L by (simp add: list_eq_iff_nth_eq)
  have "ranking_frame ?V n 1 L =
      (let Dp = map (distance ?V [0] 1) [0..<n];
           Dm = map (distance ?V [0] 1) [0..<n];
           C = map (\<lambda>i. closeness (Dp ! i) (Dm ! i)) [0..<n]
       in if length L \<noteq> n then Inl ValueError
          else Inr (map (\<lambda>i. \<lparr>Alternative = L ! i, D_plus = Dp ! i,
                                 D_minus = Dm ! i, CC = C ! i\<rparr>) [0..<n]))"
    by (simp only: ranking_frame_def vp vm ideal and_then_def sum.case)
  also have "\<dots> = Inr (map (\<lambda>i. \<lparr>Alternative = L ! i, D_plus = replicate n 0 ! i,
                  D_minus = replicate n 0 ! i, CC = replicate n 0 ! i\<rparr>) [0..<n])"
    by (simp only: Let_def Dp C L if_False not_False_eq_True simp_thms)
  finally show ?thesis by (simp only: rows)
qed

lemma tied_frame:
  assumes n: "0 < n" and L: "length L = n" and p: "score p = 0"
  shows "ftopsis_frame (replicate n [p]) [1] L
         = Inr (map (\<lambda>l. \<lparr>Alternative = l, D_plus = 0, D_minus = 0, CC = 0\<rparr>) L)"
proof -
  let ?M = "replicate n [p]"
  let ?S = "map (\<lambda>i. map (\<lambda>j. score (?M ! i ! j)) [0..<length (hd ?M)]) [0..<length ?M]"
  have ne: "?M \<noteq> []" using n by simp
  have hd: "hd ?M = [p]" using n by (cases n) simp_all
  have rows: "\<And>row. row \<in> set ?M \<Longrightarrow> length (hd ?M) \<le> length row"
    unfolding hd by simp
  have V: "weighted (normalize ?S (length ?M) (length (hd ?M))) [1] (length ?M) (length (hd ?M))
           = Inr (replicate n [0])"
  proof -
    have "weighted (normalize ?S n 1) [1] n 1
          = Inr (map (\<lambda>i. map (\<lambda>j. normalize ?S n 1 ! i ! j * [1] ! j) [0..<1]) [0..<n])"
      by (rule weighted_ok) simp
    also have "map (\<lambda>i. map (\<lambda>j. normalize ?S n 1 ! i ! j * [1] ! j) [0..<1]) [0..<n]
               = replicate n [0]"
      unfolding hd by (simp add: list_eq_iff_nth_eq normalize_cell p)
    finally show ?thesis unfolding hd by simp
  qed
  have "ftopsis_frame ?M [1] L =
      and_then (weighted (normalize ?S (length ?M) (length (hd ?M))) [1] (length ?M) (length (hd ?M)))
        (\<lambda>V. ranking_frame V (length ?M) (length (hd ?M)) L)"
    by (rule ftopsis_frame_unfold [OF ne rows])
  also have "\<dots> = ranking_frame (replicate n [0]) (length ?M) (length (hd ?M)) L"
    by (simp only: V and_then_def sum.case)
  also have "\<dots> = ranking_frame (replicate n [0]) n 1 L"
    by (simp add: hd)
  finally show ?thesis by (simp only: zero_frame [OF n L])
qed

lemma sorted_wrt_all:
  "(\<And>x y. x \<in> set xs \<Longrightarrow> y \<in> set xs \<Longrightarrow> P x y) \<Longrightarrow> sorted_wrt P xs"
  by (induction xs) auto

lemma tied_rows_any_order:
  assumes "ftopsis_frame M w a = Inr df" "\<And>r. r \<in> set df \<Longrightarrow> CC r = 0" "mset out = mset df"
  shows "ftopsis M w a (Inr out)"
proof -
  have "set out = set df" using assms(3) by (rule mset_eq_setD)
  then have "sorted_wrt (\<lambda>x y. CC y \<le> CC x) out"
    using assms(2) by (intro sorted_wrt_all) simp
  then show ?thesis
    using assms(1,3) by (simp add: ftopsis_Inr sort_values_CC_descending_def)
qed

text \<open>
  The claim as written fails: for 1000 alternatives with identical rows every CC is 0,
  and tables that list the alternatives in another order than the input's are
  possible results of the call.
\<close>

theorem ftopsis_tie_order_not_fixed:
  "ftopsis_frame (replicate 1000 [\<lparr>mu = 1 / 2, nu = 1 / 2\<rparr>]) [1]
       (map (\<lambda>i. replicate (Suc i) CHR ''I'') [0..<1000])
     = Inr (map (\<lambda>l. \<lparr>Alternative = l, D_plus = 0, D_minus = 0, CC = 0\<rparr>)
              (map (\<lambda>i. replicate (Suc i) CHR ''I'') [0..<1000])) \<and>
   (\<exists>out. ftopsis (replicate 1000 [\<lparr>mu = 1 / 2, nu = 1 / 2\<rparr>]) [1]
              (map (\<lambda>i. replicate (Suc i) CHR ''I'') [0..<1000]) (Inr out) \<and>
          map Alternative out \<noteq> map (\<lambda>i. replicate (Suc i) CHR ''I'') [0..<1000])"
proof -
  let ?M = "replicate 1000 [\<lparr>mu = 1 / 2, nu = 1 / 2\<rparr>]"
  let ?L = "map (\<lambda>i. replicate (Suc i) CHR ''I'') [0..<1000]"
  let ?df = "map (\<lambda>l. \<lparr>Alternative = l, D_plus = 0, D_minus = 0, CC = 0\<rparr>) ?L"
  have frame: "ftopsis_frame ?M [1] ?L = Inr ?df"
    by (rule tied_frame) (simp_all add: score_def)
  have "ftopsis ?M [1] ?L (Inr (rev ?df))"
    by (rule tied_rows_any_order [OF frame]) auto
  moreover have "map Alternative (rev ?df) \<noteq> ?L"
  proof
    assume "map Alternative (rev ?df) = ?L"
    then have "length (map Alternative (rev ?df) ! 0) = length (?L ! 0)" by simp
    moreover have "length (map Alternative (rev ?df) ! 0) = 1000"
      by (simp add: rev_nth)
    moreover have "length (?L ! 0) = 1" by simp
    ultimately show False by simp
  qed
  ultimately show ?thesis using frame by blast
qed

section \<open>Degenerate inputs of the ranking\<close>

text \<open>
  Claim C4. On a non-empty matrix with no row shorter than the first, a weight for every
  column and a label for every row, \<open>ftopsis\<close> returns a table and cannot fail. For
  every column whose score norm is 0 the denominator is 1 and the normalised column is
  all zeros; every row of the returned table has \<open>CC = D- / (D+ + D-)\<close>, or 0 when
  \<open>D+ + D- = 0\<close>.
\<close>

theorem ftopsis_degenerate_fallbacks:
  assumes ne: "M \<noteq> []"
    and rows: "\<forall>row\<in>set M. length (hd M) \<le> length row"
    and ws: "length (hd M) \<le> length w"
    and labels: "length a = length M"
  shows "\<exists>S df. score_matrix M (length M) (length (hd M)) = Inr S \<and>
           ftopsis_frame M w a = Inr df \<and>
           (\<exists>out. ftopsis M w a (Inr out)) \<and> (\<forall>e. \<not> ftopsis M w a (Inl e)) \<and>
           (\<forall>j. j < length (hd M) \<and>
                sqrt (sum_list (map (\<lambda>i. (S ! i ! j)\<^sup>2) [0..<length M])) = 0 \<longrightarrow>
                denom S (length M) j = 1 \<and>
                (\<forall>i. i < length M \<longrightarrow> normalize S (length M) (length (hd M)) ! i ! j = 0)) \<and>
           (\<forall>out r. ftopsis M w a (Inr out) \<and> r \<in> set out \<longrightarrow>
                CC r = closeness (D_plus r) (D_minus r) \<and>
                (D_plus r + D_minus r = 0 \<longrightarrow> CC r = 0))"
proof -
  let ?m = "length M" and ?n = "length (hd M)"
  let ?S = "map (\<lambda>i. map (\<lambda>j. score (M ! i ! j)) [0..<?n]) [0..<?m]"
  have S: "score_matrix M ?m ?n = Inr ?S"
    by (rule score_matrix_ok) (use rows in auto)
  obtain df where df: "ftopsis_frame M w a = Inr df"
    using ftopsis_frame_runs [OF ne rows ws labels] by blast
  have out: "\<exists>out. ftopsis M w a (Inr out)"
    using df stable_sort_admitted by (auto simp: ftopsis_Inr)
  have noerr: "\<forall>e. \<not> ftopsis M w a (Inl e)"
    using df by (simp add: ftopsis_Inl)
  have zero: "\<forall>j. j < ?n \<and> sqrt (sum_list (map (\<lambda>i. (?S ! i ! j)\<^sup>2) [0..<?m])) = 0 \<longrightarrow>
                denom ?S ?m j = 1 \<and> (\<forall>i. i < ?m \<longrightarrow> normalize ?S ?m ?n ! i ! j = 0)"
  proof (intro allI impI)
    fix j
    assume h: "j < ?n \<and> sqrt (sum_list (map (\<lambda>i. (?S ! i ! j)\<^sup>2) [0..<?m])) = 0"
    then have j: "j < ?n" and z: "sqrt (sum_list (map (\<lambda>i. (?S ! i ! j)\<^sup>2) [0..<?m])) = 0"
      by blast+
    have d: "denom ?S ?m j = 1" by (rule zero_norm_column(1) [OF z])
    have "normalize ?S ?m ?n ! i ! j = 0" if "i < ?m" for i
      using zero_norm_column(2) [OF z that] by (simp add: normalize_cell [OF that j] d)
    with d show "denom ?S ?m j = 1 \<and> (\<forall>i. i < ?m \<longrightarrow> normalize ?S ?m ?n ! i ! j = 0)"
      by blast
  qed
  have cc: "\<forall>out r. ftopsis M w a (Inr out) \<and> r \<in> set out \<longrightarrow>
                CC r = closeness (D_plus r) (D_minus r) \<and>
                (D_plus r + D_minus r = 0 \<longrightarrow> CC r = 0)"
  proof (intro allI impI)
    fix out r assume h: "ftopsis M w a (Inr out) \<and> r \<in> set out"
    then have "mset out = mset df"
      using df by (auto simp: ftopsis_Inr sort_values_CC_descending_def)
    then have "set out = set df" by (rule mset_eq_setD)
    with h have "r \<in> set df" by simp
    then have c: "CC r = closeness (D_plus r) (D_minus r)"
      by (rule ftopsis_frame_rows(3) [OF df])
    then show "CC r = closeness (D_plus r) (D_minus r) \<and> (D_plus r + D_minus r = 0 \<longrightarrow> CC r = 0)"
      by (simp add: closeness_def)
  qed
  from S df out noerr zero cc show ?thesis by blast
qed

lemma frame_single:
  "ftopsis_frame [[\<lparr>mu = 1 / 2, nu = 1 / 2\<rparr>]] [1] [''B1'']
     = Inr [\<lparr>Alternative = ''B1'', D_plus = 0, D_minus = 0, CC = 0\<rparr>]"
  by (simp add: ftopsis_frame_def item_def and_then_def score_matrix_def score_def
      normalize_def normalize_column_def denom_def weighted_def ranking_frame_def
      max_of_def min_of_def distance_def closeness_def Let_def)

theorem ftopsis_degenerate_fallbacks_witness:
  "ftopsis_frame [[\<lparr>mu = 1 / 2, nu = 1 / 2\<rparr>]] [1] [''B1'']
     = Inr [\<lparr>Alternative = ''B1'', D_plus = 0, D_minus = 0, CC = 0\<rparr>] \<and>
   score_matrix [[\<lparr>mu = 1 / 2, nu = 1 / 2\<rparr>]] 1 1 = Inr [[0]] \<and>
   denom [[0]] 1 0 = 1 \<and> normalize [[0]] 1 1 ! 0 ! 0 = 0 \<and>
   ftopsis [[\<lparr>mu = 1 / 2, nu = 1 / 2\<rparr>]] [1] [''B1'']
     (Inr [\<lparr>Alternative = ''B1'', D_plus = 0, D_minus = 0, CC = 0\<rparr>])"
proof -
  let ?M = "[[\<lparr>mu = 1 / 2, nu = 1 / 2\<rparr>]]"
  obtain S df where t:
    "score_matrix ?M (length ?M) (length (hd ?M)) = Inr S"
    "ftopsis_frame ?M [1] [''B1''] = Inr df"
    "\<exists>out. ftopsis ?M [1] [''B1''] (Inr out)"
    "\<forall>j. j < length (hd ?M) \<and>
         sqrt (sum_list (map (\<lambda>i. (S ! i ! j)\<^sup>2) [0..<length ?M])) = 0 \<longrightarrow>
         denom S (length ?M) j = 1 \<and>
         (\<forall>i. i < length ?M \<longrightarrow> normalize S (length ?M) (length (hd ?M)) ! i ! j = 0)"
    using ftopsis_degenerate_fallbacks [of ?M "[1]" "[''B1'']"] by auto
  have S: "S = [[0]]"
    using t(1) by (simp add: score_matrix_def score_def item_def and_then_def)
  have "denom S (length ?M) 0 = 1 \<and>
        (\<forall>i. i < length ?M \<longrightarrow> normalize S (length ?M) (length (hd ?M)) ! i ! 0 = 0)"
    using t(4) unfolding S by simp
  then have d: "denom [[0]] 1 0 = 1" and n: "normalize [[0]] 1 1 ! 0 ! 0 = 0"
    unfolding S by simp_all
  have df: "df = [\<lparr>Alternative = ''B1'', D_plus = 0, D_minus = 0, CC = 0\<rparr>]"
    using t(2) by (simp add: frame_single)
  obtain out where out: "ftopsis ?M [1] [''B1''] (Inr out)" using t(3) by blast
  then have "mset out = mset df"
    using t(2) by (auto simp: ftopsis_Inr sort_values_CC_descending_def)
  then have "out = df" unfolding df by simp
  with out df t(1,2) S d n show ?thesis by simp
qed

section \<open>Inputs of inconsistent shape\<close>

lemma comprehend_one_error:
  "(\<And>x. x \<in> set xs \<Longrightarrow> f x = Inl e \<or> isl (f x) = False)
    \<Longrightarrow> comprehend f xs = Inl e \<or> isl (comprehend f xs) = False"
proof (induction xs)
  case Nil
  then show ?case by simp
next
  case (Cons a xs)
  then have rest: "comprehend f xs = Inl e \<or> isl (comprehend f xs) = False" by simp
  from Cons.prems [of a] have "f a = Inl e \<or> isl (f a) = False" by simp
  then show ?case
  proof
    assume "f a = Inl e"
    then show ?thesis by simp
  next
    assume "isl (f a) = False"
    then obtain v where "f a = Inr v" by (cases "f a") auto
    with rest show ?thesis by (auto split: sum.splits)
  qed
qed

lemma score_row_short:
  assumes "i < length M" "length (M ! i) < n"
  shows "comprehend (\<lambda>j. and_then (item M i) (\<lambda>row. and_then (item row j) (\<lambda>c. Inr (score c)))) [0..<n]
         = Inl IndexError"
  by (rule comprehend_fails [where x = "length (M ! i)"])
     (use assms in \<open>auto simp: item_def and_then_def\<close>)

lemma score_matrix_short:
  assumes "i < length M" "length (M ! i) < n"
  shows "score_matrix M (length M) n = Inl IndexError"
  unfolding score_matrix_def
proof (rule comprehend_fails [where x = i])
  show "i \<in> set [0..<length M]" using assms by simp
  show "comprehend (\<lambda>j. and_then (item M i) (\<lambda>row. and_then (item row j) (\<lambda>c. Inr (score c)))) [0..<n]
        = Inl IndexError"
    by (rule score_row_short [OF assms])
  fix y assume "y \<in> set [0..<length M]"
  show "comprehend (\<lambda>j. and_then (item M y) (\<lambda>row. and_then (item row j) (\<lambda>c. Inr (score c)))) [0..<n]
          = Inl IndexError \<or>
        isl (comprehend (\<lambda>j. and_then (item M y) (\<lambda>row. and_then (item row j) (\<lambda>c. Inr (score c)))) [0..<n])
          = False"
    by (rule comprehend_one_error) (auto simp: item_def and_then_def)
qed

lemma ftopsis_frame_index_error:
  assumes "M = [] \<or> (\<exists>row\<in>set M. length row < length (hd M)) \<or> length w < length (hd M)"
  shows "ftopsis_frame M w a = Inl IndexError"
proof (cases "M = []")
  case True
  then show ?thesis by (simp add: ftopsis_frame_def item_def and_then_def)
next
  case ne: False
  then have first: "item M 0 = Inr (hd M)" by (cases M) (simp_all add: item_def)
  show ?thesis
  proof (cases "\<exists>row\<in>set M. length row < length (hd M)")
    case True
    then obtain i where "i < length M" "length (M ! i) < length (hd M)"
      by (auto simp: in_set_conv_nth)
    then have "score_matrix M (length M) (length (hd M)) = Inl IndexError"
      by (rule score_matrix_short)
    then show ?thesis
      by (simp add: ftopsis_frame_def first and_then_def)
  next
    case False
    then have rows: "\<And>row. row \<in> set M \<Longrightarrow> length (hd M) \<le> length row"
      by (meson not_le)
    from False ne assms have "length w < length (hd M)" by blast
    moreover have "0 < length M" using ne by simp
    ultimately show ?thesis
      by (simp add: ftopsis_frame_unfold [OF ne rows] weighted_short and_then_def)
  qed
qed

lemma weighted_surplus:
  assumes "n \<le> length w"
  shows "weighted R w m n = weighted R (take n w) m n"
proof -
  have "weighted R (take n w) m n
        = Inr (map (\<lambda>i. map (\<lambda>j. R ! i ! j * take n w ! j) [0..<n]) [0..<m])"
    by (rule weighted_ok) (use assms in simp)
  also have "\<dots> = Inr (map (\<lambda>i. map (\<lambda>j. R ! i ! j * w ! j) [0..<n]) [0..<m])"
    by simp
  finally show ?thesis by (simp add: weighted_ok [OF assms])
qed

lemma ftopsis_frame_surplus:
  assumes "M \<noteq> []" "\<forall>row\<in>set M. length (hd M) \<le> length row" "length (hd M) \<le> length w"
  shows "ftopsis_frame M w a = ftopsis_frame M (take (length (hd M)) w) a"
proof -
  have rows: "\<And>row. row \<in> set M \<Longrightarrow> length (hd M) \<le> length row" using assms(2) by blast
  show ?thesis
    by (simp only: ftopsis_frame_unfold [OF assms(1) rows] weighted_surplus [OF assms(3), symmetric])
qed

lemma ftopsis_frame_label_error:
  assumes "M \<noteq> []" "\<forall>row\<in>set M. length (hd M) \<le> length row" "length (hd M) \<le> length w"
    "length a \<noteq> length M"
  shows "ftopsis_frame M w a = Inl ValueError"
proof -
  have rows: "\<And>row. row \<in> set M \<Longrightarrow> length (hd M) \<le> length row" using assms(2) by blast
  have m: "0 < length M" using assms(1) by simp
  show ?thesis
    by (simp add: ftopsis_frame_unfold [OF assms(1) rows] weighted_ok [OF assms(3)] and_then_def
        ranking_frame_labels [OF m assms(4)])
qed

lemma ftopsis_fails: "ftopsis_frame M w a = Inl e \<Longrightarrow> ftopsis M w a r \<longleftrightarrow> r = Inl e"
  by (simp add: ftopsis_def)

text \<open>
  Claim C9, as the code has it. \<open>ftopsis\<close> checks no dimension itself. It fails with
  IndexError when the matrix is empty, when a row is shorter than the first row or when
  there are fewer weights than columns; with all that in order, it fails with ValueError
  when the number of labels differs from the number of rows. Weights beyond the number
  of columns are never read: the call behaves as with the weight vector cut to that
  length, and succeeds when the labels fit.
\<close>

theorem ftopsis_shape_errors:
  "(M = [] \<or> (\<exists>row\<in>set M. length row < length (hd M)) \<or> length w < length (hd M) \<longrightarrow>
      (\<forall>r. ftopsis M w a r \<longleftrightarrow> r = Inl IndexError)) \<and>
   (M \<noteq> [] \<and> (\<forall>row\<in>set M. length (hd M) \<le> length row) \<and> length (hd M) \<le> length w \<longrightarrow>
      (\<forall>r. ftopsis M w a r \<longleftrightarrow> ftopsis M (take (length (hd M)) w) a r) \<and>
      (length a \<noteq> length M \<longrightarrow> (\<forall>r. ftopsis M w a r \<longleftrightarrow> r = Inl ValueError)) \<and>
      (length a = length M \<longrightarrow>
         (\<exists>out. ftopsis M w a (Inr out)) \<and> (\<forall>e. \<not> ftopsis M w a (Inl e))))"
proof (intro conjI impI allI)
  fix r
  assume "M = [] \<or> (\<exists>row\<in>set M. length row < length (hd M)) \<or> length w < length (hd M)"
  then show "ftopsis M w a r \<longleftrightarrow> r = Inl IndexError"
    by (intro ftopsis_fails ftopsis_frame_index_error)
next
  fix r
  assume "M \<noteq> [] \<and> (\<forall>row\<in>set M. length (hd M) \<le> length row) \<and> length (hd M) \<le> length w"
  then show "ftopsis M w a r \<longleftrightarrow> ftopsis M (take (length (hd M)) w) a r"
    using ftopsis_frame_surplus [of M w a] by (simp add: ftopsis_def)
next
  fix r
  assume "M \<noteq> [] \<and> (\<forall>row\<in>set M. length (hd M) \<le> length row) \<and> length (hd M) \<le> length w"
    and "length a \<noteq> length M"
  then show "ftopsis M w a r \<longleftrightarrow> r = Inl ValueError"
    by (intro ftopsis_fails ftopsis_frame_label_error) auto
next
  assume h: "M \<noteq> [] \<and> (\<forall>row\<in>set M. length (hd M) \<le> length row) \<and> length (hd M) \<le> length w"
    and l: "length a = length M"
  then obtain df where "ftopsis_frame M w a = Inr df"
    using ftopsis_frame_runs [of M w a] by blast
  then show "\<exists>out. ftopsis M w a (Inr out)"
    using stable_sort_admitted by (auto simp: ftopsis_Inr)
next
  fix e
  assume h: "M \<noteq> [] \<and> (\<forall>row\<in>set M. length (hd M) \<le> length row) \<and> length (hd M) \<le> length w"
    and l: "length a = length M"
  then obtain df where "ftopsis_frame M w a = Inr df"
    using ftopsis_frame_runs [of M w a] by blast
  then show "\<not> ftopsis M w a (Inl e)" by (simp add: ftopsis_Inl)
qed

theorem ftopsis_shape_errors_witness:
  "ftopsis [[\<lparr>mu = 0, nu = 0\<rparr>], [\<lparr>mu = 1, nu = 0\<rparr>]] [] [''B1'', ''B2''] (Inl IndexError) \<and>
   ftopsis [[\<lparr>mu = 0, nu = 0\<rparr>], [\<lparr>mu = 1, nu = 0\<rparr>]] [1] [''B1''] (Inl ValueError) \<and>
   (\<exists>out. ftopsis [[\<lparr>mu = 0, nu = 0\<rparr>], [\<lparr>mu = 1, nu = 0\<rparr>]] [1, 7] [''B1'', ''B2''] (Inr out) \<and>
          ftopsis [[\<lparr>mu = 0, nu = 0\<rparr>], [\<lparr>mu = 1, nu = 0\<rparr>]] [1] [''B1'', ''B2''] (Inr out))"
proof -
  let ?M = "[[\<lparr>mu = 0, nu = 0\<rparr>], [\<lparr>mu = 1, nu = 0\<rparr>]]"
  have a: "ftopsis ?M [] [''B1'', ''B2''] (Inl IndexError)"
    using ftopsis_shape_errors [of ?M "[]" "[''B1'', ''B2'']"] by simp
  have b: "ftopsis ?M [1] [''B1''] (Inl ValueError)"
    using ftopsis_shape_errors [of ?M "[1]" "[''B1'']"] by simp
  note t = ftopsis_shape_errors [of ?M "[1, 7]" "[''B1'', ''B2'']"]
  have shape: "?M \<noteq> [] \<and> (\<forall>row\<in>set ?M. length (hd ?M) \<le> length row) \<and>
      length (hd ?M) \<le> length [1, 7 :: real]" by simp
  have labels: "length [''B1'', ''B2''] = length ?M" by simp
  from t shape labels obtain out where out: "ftopsis ?M [1, 7] [''B1'', ''B2''] (Inr out)"
    by blast
  from t shape have "ftopsis ?M [1, 7] [''B1'', ''B2''] (Inr out)
      \<longleftrightarrow> ftopsis ?M (take (length (hd ?M)) [1, 7]) [''B1'', ''B2''] (Inr out)"
    by blast
  with out have "ftopsis ?M [1] [''B1'', ''B2''] (Inr out)" by simp
  with a b out show ?thesis by blast
qed

text \<open>
  The claim as written fails: with two weights for a matrix of one column the call
  returns a ranking.
\<close>

theorem ftopsis_surplus_weight_accepted:
  "ftopsis [[\<lparr>mu = 0, nu = 0\<rparr>], [\<lparr>mu = 1, nu = 0\<rparr>]] [1, 7] [''B1'', ''B2'']
     (Inr [\<lparr>Alternative = ''B2'', D_plus = 0, D_minus = 1, CC = 1\<rparr>,
           \<lparr>Alternative = ''B1'', D_plus = 1, D_minus = 0, CC = 0\<rparr>]) \<and>
   length [1, 7 :: real] \<noteq> length (hd [[\<lparr>mu = 0, nu = 0\<rparr>], [\<lparr>mu = 1, nu = 0\<rparr>]])"
  by (simp add: ftopsis_def frame_surplus_weight sort_values_CC_descending_def)

section \<open>The agreement report\<close>

lemma expert_cells_ok:
  assumes "\<And>M. M \<in> set E \<Longrightarrow> i < length M \<and> j < length (M ! i)"
  shows "expert_cells E (length E) i j f = Inr (map (\<lambda>M. f (M ! i ! j)) E)"
proof -
  have "expert_cells E (length E) i j f = Inr (map (\<lambda>e. f (E ! e ! i ! j)) [0..<length E])"
    unfolding expert_cells_def
    by (rule comprehend_total) (use assms in \<open>simp add: item_def and_then_def\<close>)
  also have "map (\<lambda>e. f (E ! e ! i ! j)) [0..<length E] = map (\<lambda>M. f (M ! i ! j)) (map (nth E) [0..<length E])"
    by (simp add: comp_def)
  also have "\<dots> = map (\<lambda>M. f (M ! i ! j)) E" by (simp only: map_nth)
  finally show ?thesis .
qed

lemma divide_ok: "0 < k \<Longrightarrow> divide x k = Inr (x / real k)"
  by (simp add: divide_def)

lemma cell_variance_ok:
  assumes "E \<noteq> []" "\<And>M. M \<in> set E \<Longrightarrow> i < length M \<and> j < length (M ! i)"
  shows "cell_variance E i j = Inr (cell_variance_formula E i j)"
proof -
  have k: "0 < length E" using assms(1) by simp
  show ?thesis
    unfolding cell_variance_def Let_def
    by (simp add: expert_cells_ok [OF assms(2)] and_then_def divide_ok [OF k]
        cell_variance_formula_def cell_mean_def comp_def)
qed

lemma product_Nil_right: "List.product xs [] = []"
  by (induction xs) simp_all

lemma avg_variance_ok:
  assumes ne: "E \<noteq> []" and first: "hd E \<noteq> []"
    and shape: "\<forall>M\<in>set E. length M = length (hd E) \<and> (\<forall>row\<in>set M. length row = length (hd (hd E)))"
  shows "avg_variance E =
     Inr (let cells = List.product [0..<length (hd E)] [0..<length (hd (hd E))]
          in if cells \<noteq> []
             then sum_list (map (\<lambda>(i, j). cell_variance_formula E i j) cells) / real (length cells)
             else 0)"
proof -
  let ?cells = "List.product [0..<length (hd E)] [0..<length (hd (hd E))]"
  have h0: "E ! 0 = hd E" using ne by (simp add: hd_conv_nth)
  have h1: "length (E ! 0 ! 0) = length (hd (hd E))"
    using h0 first by (simp add: hd_conv_nth)
  have cells: "comprehend (\<lambda>(i, j). cell_variance E i j) ?cells
        = Inr (map (\<lambda>(i, j). cell_variance_formula E i j) ?cells)"
  proof (rule comprehend_total)
    fix x assume "x \<in> set ?cells"
    then obtain i j where x: "x = (i, j)" "i < length (hd E)" "j < length (hd (hd E))"
      by auto
    have "cell_variance E i j = Inr (cell_variance_formula E i j)"
    proof (rule cell_variance_ok [OF ne])
      fix M assume M: "M \<in> set E"
      then have "length M = length (hd E)" using shape by blast
      then have i: "i < length M" using x by simp
      then have "M ! i \<in> set M" by simp
      then have "length (M ! i) = length (hd (hd E))" using shape M by blast
      with i x show "i < length M \<and> j < length (M ! i)" by simp
    qed
    then show "(case x of (i, j) \<Rightarrow> cell_variance E i j)
               = Inr (case x of (i, j) \<Rightarrow> cell_variance_formula E i j)"
      using x by simp
  qed
  show ?thesis
    unfolding avg_variance_def h0 h1 [unfolded h0] Let_def cells
    by (simp add: and_then_def divide_def product_Nil_right)
qed






lemma py_round_0: "py_round 0 4 = [0]"
  by (simp add: py_round_def nearest_integers_def)

lemma py_round_1: "py_round 1 4 = [1]"
  by (simp add: py_round_def nearest_integers_def)

lemma analysis_default:
  "E = [] \<or> hd E = [] \<Longrightarrow>
   expert_agreement_analysis E r \<longleftrightarrow>
     r = Inr \<lparr>avg_variance_reported = 0, agreement_score = 1, agreement_level = Yuksek\<rparr>"
  by (cases E) (simp_all add: expert_agreement_analysis_def)

lemma analysis_unfold:
  assumes "E \<noteq> []" "hd E \<noteq> []" "avg_variance E = Inr v"
  shows "expert_agreement_analysis E r \<longleftrightarrow>
     (\<exists>report. r = Inr report \<and>
        avg_variance_reported report \<in> set (py_round v 4) \<and>
        agreement_score report \<in> set (py_round (1 - min v 1) 4) \<and>
        agreement_level report = bucket v)"
proof -
  have "E ! 0 \<noteq> []" using assms(1,2) by (simp add: hd_conv_nth)
  then show ?thesis
    using assms(1,3) by (cases r) (simp_all add: expert_agreement_analysis_def)
qed

lemma single_expert_variance: "cell_variance_formula [M] i j = 0"
  by (simp add: cell_variance_formula_def cell_mean_def)

lemma single_avg_form:
  assumes "M \<noteq> []" "\<forall>row\<in>set M. length row = length (hd M)"
  shows "avg_variance [M] =
       Inr (let cells = List.product [0..<length (hd [M])] [0..<length (hd (hd [M]))]
            in if cells \<noteq> []
               then sum_list (map (\<lambda>(i, j). cell_variance_formula [M] i j) cells) / real (length cells)
               else 0)"
proof (rule avg_variance_ok)
  show "[M] \<noteq> []" by simp
  show "hd [M] \<noteq> []" using assms(1) by simp
  show "\<forall>M'\<in>set [M]. length M' = length (hd [M]) \<and>
          (\<forall>row\<in>set M'. length row = length (hd (hd [M])))"
    using assms(2) by simp
qed

lemma zero_cells:
  "sum_list (map (\<lambda>(i, j). cell_variance_formula [M] i j) cells) = 0"
  by (induction cells) (simp_all add: single_expert_variance split: prod.splits)

lemma single_avg_zero:
  assumes "M \<noteq> []" "\<forall>row\<in>set M. length row = length (hd M)"
  shows "avg_variance [M] = Inr 0"
  unfolding single_avg_form [OF assms] Let_def zero_cells by simp

lemma single_expert_report:
  assumes "M \<noteq> []" "\<forall>row\<in>set M. length row = length (hd M)"
  shows "expert_agreement_analysis [M] r \<longleftrightarrow>
     r = Inr \<lparr>avg_variance_reported = 0, agreement_score = 1, agreement_level = Yuksek\<rparr>"
proof -
  have v: "avg_variance [M] = Inr 0" by (rule single_avg_zero [OF assms])
  have s: "1 - min 0 1 = (1::real)" by simp
  have b: "bucket 0 = Yuksek" by (simp add: bucket_def)
  have "expert_agreement_analysis [M] r \<longleftrightarrow>
     (\<exists>report. r = Inr report \<and>
        avg_variance_reported report \<in> set (py_round 0 4) \<and>
        agreement_score report \<in> set (py_round (1 - min 0 1) 4) \<and>
        agreement_level report = bucket 0)"
    by (rule analysis_unfold) (use assms(1) v in simp_all)
  also have "\<dots> \<longleftrightarrow> (\<exists>report. r = Inr report \<and> avg_variance_reported report = 0 \<and>
        agreement_score report = 1 \<and> agreement_level report = Yuksek)"
    unfolding s b py_round_0 py_round_1 by simp
  also have "\<dots> \<longleftrightarrow>
     r = Inr \<lparr>avg_variance_reported = 0, agreement_score = 1, agreement_level = Yuksek\<rparr>"
    by (cases r) auto
  finally show ?thesis .
qed

text \<open>
  Claim C8. \<open>expert_agreement_analysis\<close> returns the default of maximal agreement
  (variance 0, score 1, level high) for an empty list of experts and for a list
  whose first matrix is empty, without failing; and for the matrix of a single expert,
  whatever its cells, it returns variance 0, score 1 and the level high. In each case
  this is the only way the call can end.
\<close>

theorem agreement_single_expert_and_empty:
  "(\<forall>r. expert_agreement_analysis [] r \<longleftrightarrow>
      r = Inr \<lparr>avg_variance_reported = 0, agreement_score = 1, agreement_level = Yuksek\<rparr>) \<and>
   (\<forall>r. expert_agreement_analysis ([] # rest) r \<longleftrightarrow>
      r = Inr \<lparr>avg_variance_reported = 0, agreement_score = 1, agreement_level = Yuksek\<rparr>) \<and>
   ((\<forall>row\<in>set M. length row = length (hd M)) \<longrightarrow>
      (\<forall>r. expert_agreement_analysis [M] r \<longleftrightarrow>
         r = Inr \<lparr>avg_variance_reported = 0, agreement_score = 1, agreement_level = Yuksek\<rparr>))"
proof (intro conjI impI allI)
  fix r
  show "expert_agreement_analysis [] r \<longleftrightarrow>
      r = Inr \<lparr>avg_variance_reported = 0, agreement_score = 1, agreement_level = Yuksek\<rparr>"
    by (rule analysis_default) simp
  show "expert_agreement_analysis ([] # rest) r \<longleftrightarrow>
      r = Inr \<lparr>avg_variance_reported = 0, agreement_score = 1, agreement_level = Yuksek\<rparr>"
    by (rule analysis_default) simp
next
  fix r
  assume rect: "\<forall>row\<in>set M. length row = length (hd M)"
  show "expert_agreement_analysis [M] r \<longleftrightarrow>
         r = Inr \<lparr>avg_variance_reported = 0, agreement_score = 1, agreement_level = Yuksek\<rparr>"
  proof (cases "M = []")
    case True
    then show ?thesis by (intro analysis_default) simp
  next
    case False
    then show ?thesis using rect by (rule single_expert_report)
  qed
qed

theorem agreement_single_expert_and_empty_witness:
  "expert_agreement_analysis [[[\<lparr>mu = 7 / 10, nu = 7 / 10\<rparr>, \<lparr>mu = 9 / 10, nu = 3 / 10\<rparr>],
                               [\<lparr>mu = 3 / 10, nu = 8 / 10\<rparr>, \<lparr>mu = 7 / 10, nu = 7 / 10\<rparr>]]]
     (Inr \<lparr>avg_variance_reported = 0, agreement_score = 1, agreement_level = Yuksek\<rparr>) \<and>
   \<not> expert_agreement_analysis [[[\<lparr>mu = 7 / 10, nu = 7 / 10\<rparr>, \<lparr>mu = 9 / 10, nu = 3 / 10\<rparr>],
                               [\<lparr>mu = 3 / 10, nu = 8 / 10\<rparr>, \<lparr>mu = 7 / 10, nu = 7 / 10\<rparr>]]]
     (Inr \<lparr>avg_variance_reported = 1 / 10000, agreement_score = 1, agreement_level = Yuksek\<rparr>)"
  using agreement_single_expert_and_empty
    [of "[]" "[[\<lparr>mu = 7 / 10, nu = 7 / 10\<rparr>, \<lparr>mu = 9 / 10, nu = 3 / 10\<rparr>],
             [\<lparr>mu = 3 / 10, nu = 8 / 10\<rparr>, \<lparr>mu = 7 / 10, nu = 7 / 10\<rparr>]]"]
  by simp







section \<open>The summary\<close>

lemma statistical_summary_ok:
  assumes "result_df \<noteq> []" "weights \<noteq> []"
  shows "statistical_summary weights result_df =
     Inr \<lparr>mean_CC = array_mean (map CC result_df), std_CC = array_std (map CC result_df),
          min_CC = foldl min (hd (map CC result_df)) (tl (map CC result_df)),
          max_CC = foldl max (hd (map CC result_df)) (tl (map CC result_df)),
          range_CC = foldl max (hd (map CC result_df)) (tl (map CC result_df))
                     - foldl min (hd (map CC result_df)) (tl (map CC result_df)),
          mean_weight = sum_list weights / real (length weights),
          max_weight = foldl max (hd weights) (tl weights),
          min_weight = foldl min (hd weights) (tl weights)\<rparr>"
proof -
  have cc: "map CC result_df \<noteq> []" using assms(1) by simp
  have k: "0 < length weights" using assms(2) by simp
  show ?thesis
    unfolding statistical_summary_def Let_def
    by (simp only: min_of_ok [OF cc] max_of_ok [OF cc] min_of_ok [OF assms(2)]
        max_of_ok [OF assms(2)] divide_ok [OF k] and_then_def sum.case)
qed

lemma array_std_population:
  "array_std xs = sqrt (sum_list (map (\<lambda>x. (x - sum_list xs / real (length xs))\<^sup>2) xs)
                        / real (length xs))"
  by (simp add: array_std_def array_mean_def)

lemma example_mean: "array_mean [2 / 10, 4 / 10, 6 / 10, 8 / 10] = 1 / 2"
  by (simp add: array_mean_def)

lemma example_std: "array_std [2 / 10, 4 / 10, 6 / 10, 8 / 10] = sqrt (1 / 20)"
  by (simp add: array_std_def array_mean_def power2_eq_square)

lemma example_sample_std: "sample_std [2 / 10, 4 / 10, 6 / 10, 8 / 10] = sqrt (1 / 15)"
  by (simp add: sample_std_def array_mean_def power2_eq_square)

lemma sqrt_twentieth: "2236 / 10000 < sqrt (1 / 20)" "sqrt (1 / 20) < 2237 / 10000"
proof -
  have "(2236 / 10000 :: real)\<^sup>2 < 1 / 20" by (simp add: power2_eq_square)
  then show "2236 / 10000 < sqrt (1 / 20)" by (rule real_less_rsqrt)
  have "(1 / 20 :: real) < (2237 / 10000)\<^sup>2" by (simp add: power2_eq_square)
  then show "sqrt (1 / 20) < 2237 / 10000" by (intro real_less_lsqrt) simp_all
qed

lemma sqrt_fifteenth: "2581 / 10000 < sqrt (1 / 15)" "sqrt (1 / 15) < 2583 / 10000"
proof -
  have "(2581 / 10000 :: real)\<^sup>2 < 1 / 15" by (simp add: power2_eq_square)
  then show "2581 / 10000 < sqrt (1 / 15)" by (rule real_less_rsqrt)
  have "(1 / 15 :: real) < (2583 / 10000)\<^sup>2" by (simp add: power2_eq_square)
  then show "sqrt (1 / 15) < 2583 / 10000" by (intro real_less_lsqrt) simp_all
qed

text \<open>
  Claim C7. For a non-empty table and a non-empty weight vector, \<open>statistical_summary\<close>
  reports the mean of the CC column and its standard deviation with divisor \<open>n\<close>,
  the population formula. For \<open>CC = [0.2, 0.4, 0.6, 0.8]\<close> the mean is \<open>0.5\<close> and the
  standard deviation is \<open>sqrt 0.05\<close>, between \<open>0.2236\<close> and \<open>0.2237\<close>; the sample
  estimator would be \<open>sqrt (1 / 15)\<close>, above \<open>0.2581\<close>.
\<close>

theorem statistical_summary_population_std:
  assumes "result_df \<noteq> []" "weights \<noteq> []"
  shows "\<exists>s. statistical_summary weights result_df = Inr s \<and>
           mean_CC s = sum_list (map CC result_df) / real (length result_df) \<and>
           std_CC s = sqrt (sum_list (map (\<lambda>x. (x - mean_CC s)\<^sup>2) (map CC result_df))
                            / real (length result_df)) \<and>
           (map CC result_df = [2 / 10, 4 / 10, 6 / 10, 8 / 10] \<longrightarrow>
              mean_CC s = 1 / 2 \<and> std_CC s = sqrt (1 / 20) \<and>
              2236 / 10000 < std_CC s \<and> std_CC s < 2237 / 10000 \<and>
              sample_std (map CC result_df) = sqrt (1 / 15) \<and>
              2581 / 10000 < sample_std (map CC result_df) \<and>
              std_CC s < sample_std (map CC result_df))"
proof -
  let ?cc = "map CC result_df"
  obtain s where s: "statistical_summary weights result_df = Inr s"
    "mean_CC s = array_mean ?cc" "std_CC s = array_std ?cc"
    using statistical_summary_ok [OF assms] by simp
  have m: "mean_CC s = sum_list ?cc / real (length result_df)"
    using s(2) by (simp add: array_mean_def)
  have sd: "std_CC s = sqrt (sum_list (map (\<lambda>x. (x - mean_CC s)\<^sup>2) ?cc) / real (length result_df))"
    unfolding s(3) m by (simp add: array_std_population comp_def)
  have ex: "?cc = [2 / 10, 4 / 10, 6 / 10, 8 / 10] \<longrightarrow>
              mean_CC s = 1 / 2 \<and> std_CC s = sqrt (1 / 20) \<and>
              2236 / 10000 < std_CC s \<and> std_CC s < 2237 / 10000 \<and>
              sample_std ?cc = sqrt (1 / 15) \<and>
              2581 / 10000 < sample_std ?cc \<and>
              std_CC s < sample_std ?cc"
  proof
    assume e: "?cc = [2 / 10, 4 / 10, 6 / 10, 8 / 10]"
    have a: "mean_CC s = 1 / 2" unfolding s(2) e by (rule example_mean)
    have b: "std_CC s = sqrt (1 / 20)" unfolding s(3) e by (rule example_std)
    have c: "sample_std ?cc = sqrt (1 / 15)" unfolding e by (rule example_sample_std)
    have lt: "sqrt (1 / 20) < sqrt (1 / 15 :: real)" by simp
    from a b c sqrt_twentieth sqrt_fifteenth lt
    show "mean_CC s = 1 / 2 \<and> std_CC s = sqrt (1 / 20) \<and>
              2236 / 10000 < std_CC s \<and> std_CC s < 2237 / 10000 \<and>
              sample_std ?cc = sqrt (1 / 15) \<and>
              2581 / 10000 < sample_std ?cc \<and>
              std_CC s < sample_std ?cc"
      by (intro conjI) (simp_all only:)
  qed
  from s(1) m sd ex show ?thesis by blast
qed

theorem statistical_summary_population_std_witness:
  "\<exists>s. statistical_summary [1 / 2, 1 / 2]
           [\<lparr>Alternative = ''B1'', D_plus = 0, D_minus = 0, CC = 2 / 10\<rparr>,
            \<lparr>Alternative = ''B2'', D_plus = 0, D_minus = 0, CC = 4 / 10\<rparr>,
            \<lparr>Alternative = ''B3'', D_plus = 0, D_minus = 0, CC = 6 / 10\<rparr>,
            \<lparr>Alternative = ''B4'', D_plus = 0, D_minus = 0, CC = 8 / 10\<rparr>] = Inr s \<and>
        mean_CC s = 1 / 2 \<and> std_CC s = sqrt (1 / 20) \<and>
        2236 / 10000 < std_CC s \<and> std_CC s < 2237 / 10000"
proof -
  let ?df = "[\<lparr>Alternative = ''B1'', D_plus = 0, D_minus = 0, CC = 2 / 10\<rparr>,
            \<lparr>Alternative = ''B2'', D_plus = 0, D_minus = 0, CC = 4 / 10\<rparr>,
            \<lparr>Alternative = ''B3'', D_plus = 0, D_minus = 0, CC = 6 / 10\<rparr>,
            \<lparr>Alternative = ''B4'', D_plus = 0, D_minus = 0, CC = 8 / 10\<rparr>]"
  have ne: "?df \<noteq> []" "[1 / 2, 1 / 2 :: real] \<noteq> []" by simp_all
  have cc: "map CC ?df = [2 / 10, 4 / 10, 6 / 10, 8 / 10]" by simp
  from statistical_summary_population_std [OF ne] cc show ?thesis by blast
qed

section \<open>The aggregation\<close>

lemma comprehend_cong:
  "(\<And>x. x \<in> set xs \<Longrightarrow> f x = g x) \<Longrightarrow> comprehend f xs = comprehend g xs"
  by (induction xs) (simp_all split: sum.splits)

lemma comprehend_guard:
  "comprehend (\<lambda>x. if P x then Inl e else Inr (g x)) xs
     = (if \<exists>x\<in>set xs. P x then Inl e else Inr (map g xs))"
  by (induction xs) auto

lemma ex_upt_pair:
  "(\<exists>i\<in>set [0..<n]. \<exists>j\<in>set [0..<m]. P i j) \<longleftrightarrow> (\<exists>i j. i < n \<and> j < m \<and> P i j)"
  by (simp add: Bex_def)

lemma aggregate_cell:
  assumes "E \<noteq> []" "\<And>M. M \<in> set E \<Longrightarrow> i < length M \<and> j < length (M ! i)"
  shows "and_then (expert_cells E (length E) i j mu) (\<lambda>mus.
         and_then (divide (sum_list mus) (length E)) (\<lambda>mu_avg.
         and_then (expert_cells E (length E) i j nu) (\<lambda>nus.
         and_then (divide (sum_list nus) (length E)) (\<lambda>nu_avg.
         new_PFS mu_avg nu_avg))))
         = (if (cell_mean mu E i j)\<^sup>2 + (cell_mean nu E i j)\<^sup>2 > 1 + 1 / 10 ^ 9
            then Inl ValueError
            else Inr \<lparr>mu = cell_mean mu E i j, nu = cell_mean nu E i j\<rparr>)"
proof -
  have k: "0 < length E" using assms(1) by simp
  show ?thesis
    by (simp add: expert_cells_ok [OF assms(2)] divide_ok [OF k] and_then_def cell_mean_def
        new_PFS_cases)
qed

text \<open>
  Claim C5. \<open>App.compute\<close> builds the experts' matrices with five rows of five cells
  just before it aggregates them. For every sequence of \<open>E \<ge> 1\<close> such matrices the
  aggregation yields the matrix of the same shape whose cell \<open>(i, j)\<close> holds the
  arithmetic means of the experts' \<open>mu\<close> and of their \<open>nu\<close> at \<open>(i, j)\<close>, every
  expert counting the same; each cell is built by the checking constructor, so that the
  aggregation fails with ValueError when the means of some cell violate the
  Pythagorean condition.
\<close>

theorem aggregate_means_validated:
  assumes ne: "E \<noteq> []"
    and shape: "\<forall>M\<in>set E. length M = 5 \<and> (\<forall>row\<in>set M. length row = 5)"
  shows "aggregate (length E) E =
     (if \<exists>i j. i < 5 \<and> j < 5 \<and>
              (cell_mean mu E i j)\<^sup>2 + (cell_mean nu E i j)\<^sup>2 > 1 + 1 / 10 ^ 9
      then Inl ValueError
      else Inr (map (\<lambda>i. map (\<lambda>j. \<lparr>mu = cell_mean mu E i j, nu = cell_mean nu E i j\<rparr>)
                  [0..<5]) [0..<5]))"
proof -
  let ?bad = "\<lambda>i j. (cell_mean mu E i j)\<^sup>2 + (cell_mean nu E i j)\<^sup>2 > 1 + 1 / 10 ^ 9"
  let ?cell = "\<lambda>i j. \<lparr>mu = cell_mean mu E i j, nu = cell_mean nu E i j\<rparr>"
  have cell: "and_then (expert_cells E (length E) i j mu) (\<lambda>mus.
         and_then (divide (sum_list mus) (length E)) (\<lambda>mu_avg.
         and_then (expert_cells E (length E) i j nu) (\<lambda>nus.
         and_then (divide (sum_list nus) (length E)) (\<lambda>nu_avg.
         new_PFS mu_avg nu_avg))))
         = (if ?bad i j then Inl ValueError else Inr (?cell i j))"
    if "i < 5" "j < 5" for i j
  proof -
    have inrange: "i < length M \<and> j < length (M ! i)" if M: "M \<in> set E" for M
    proof -
      have l: "length M = 5" using shape M by blast
      then have "M ! i \<in> set M" using \<open>i < 5\<close> by simp
      then have "length (M ! i) = 5" using shape M by blast
      with l \<open>i < 5\<close> \<open>j < 5\<close> show ?thesis by simp
    qed
    show ?thesis by (rule aggregate_cell [OF ne inrange])
  qed
  have row: "comprehend (\<lambda>j.
         and_then (expert_cells E (length E) i j mu) (\<lambda>mus.
         and_then (divide (sum_list mus) (length E)) (\<lambda>mu_avg.
         and_then (expert_cells E (length E) i j nu) (\<lambda>nus.
         and_then (divide (sum_list nus) (length E)) (\<lambda>nu_avg.
         new_PFS mu_avg nu_avg))))) [0..<5]
       = (if \<exists>j\<in>set [0..<5]. ?bad i j then Inl ValueError else Inr (map (?cell i) [0..<5]))"
    if "i < 5" for i
  proof -
    have "comprehend (\<lambda>j.
         and_then (expert_cells E (length E) i j mu) (\<lambda>mus.
         and_then (divide (sum_list mus) (length E)) (\<lambda>mu_avg.
         and_then (expert_cells E (length E) i j nu) (\<lambda>nus.
         and_then (divide (sum_list nus) (length E)) (\<lambda>nu_avg.
         new_PFS mu_avg nu_avg))))) [0..<5]
       = comprehend (\<lambda>j. if ?bad i j then Inl ValueError else Inr (?cell i j)) [0..<5]"
      by (rule comprehend_cong) (use cell [OF that] in simp)
    then show ?thesis by (simp only: comprehend_guard)
  qed
  have "aggregate (length E) E
        = comprehend (\<lambda>i. if \<exists>j\<in>set [0..<5]. ?bad i j then Inl ValueError
                          else Inr (map (?cell i) [0..<5])) [0..<5]"
    unfolding aggregate_def by (rule comprehend_cong) (use row in simp)
  also have "\<dots> = (if \<exists>i\<in>set [0..<5]. \<exists>j\<in>set [0..<5]. ?bad i j then Inl ValueError
                    else Inr (map (\<lambda>i. map (?cell i) [0..<5]) [0..<5]))"
    by (simp only: comprehend_guard)
  finally show ?thesis by (simp only: ex_upt_pair)
qed

lemma constant_matrix:
  assumes "\<And>i j. i < b \<Longrightarrow> j < a \<Longrightarrow> f i j = c"
  shows "map (\<lambda>i. map (\<lambda>j. f i j) [0..<a]) [0..<b] = replicate b (replicate a c)"
  using assms by (simp add: list_eq_iff_nth_eq)

theorem aggregate_means_validated_witness:
  "aggregate 2 [replicate 5 (replicate 5 \<lparr>mu = 9 / 10, nu = 3 / 10\<rparr>),
                replicate 5 (replicate 5 \<lparr>mu = 1 / 10, nu = 9 / 10\<rparr>)]
     = Inr (replicate 5 (replicate 5 \<lparr>mu = 1 / 2, nu = 3 / 5\<rparr>)) \<and>
   aggregate 1 [replicate 5 (replicate 5 \<lparr>mu = 1, nu = 1\<rparr>)] = Inl ValueError"
proof -
  let ?E = "[replicate 5 (replicate 5 \<lparr>mu = 9 / 10, nu = 3 / 10\<rparr>),
             replicate 5 (replicate 5 \<lparr>mu = 1 / 10, nu = 9 / 10\<rparr>)]"
  let ?F = "[replicate 5 (replicate 5 \<lparr>mu = 1, nu = 1\<rparr>)]"
  have m: "cell_mean mu ?E i j = 1 / 2" and n: "cell_mean nu ?E i j = 3 / 5"
    if "i < 5" "j < 5" for i j
    using that by (simp_all add: cell_mean_def)
  have ok: "\<not> (\<exists>i j. i < 5 \<and> j < 5 \<and>
              (cell_mean mu ?E i j)\<^sup>2 + (cell_mean nu ?E i j)\<^sup>2 > 1 + 1 / 10 ^ 9)"
  proof (intro notI, elim exE conjE)
    fix i j :: nat
    assume i: "i < 5" and j: "j < 5"
      and bad: "(cell_mean mu ?E i j)\<^sup>2 + (cell_mean nu ?E i j)\<^sup>2 > 1 + 1 / 10 ^ 9"
    from bad show False
      unfolding m [OF i j] n [OF i j] by (simp add: power2_eq_square)
  qed
  have cells: "map (\<lambda>i. map (\<lambda>j. \<lparr>mu = cell_mean mu ?E i j, nu = cell_mean nu ?E i j\<rparr>)
                  [0..<5]) [0..<5] = replicate 5 (replicate 5 \<lparr>mu = 1 / 2, nu = 3 / 5\<rparr>)"
    by (rule constant_matrix) (simp add: m n)
  have "aggregate (length ?E) ?E = Inr (replicate 5 (replicate 5 \<lparr>mu = 1 / 2, nu = 3 / 5\<rparr>))"
    using aggregate_means_validated [of ?E] ok cells by simp
  then have a: "aggregate 2 ?E = Inr (replicate 5 (replicate 5 \<lparr>mu = 1 / 2, nu = 3 / 5\<rparr>))"
    by (simp add: numeral_2_eq_2)
  have "cell_mean mu ?F 0 0 = 1" "cell_mean nu ?F 0 0 = 1"
    by (simp_all add: cell_mean_def)
  then have bad: "\<exists>i j. i < 5 \<and> j < 5 \<and>
              (cell_mean mu ?F i j)\<^sup>2 + (cell_mean nu ?F i j)\<^sup>2 > 1 + 1 / 10 ^ 9"
    by (intro exI [of _ 0]) simp
  have "aggregate (length ?F) ?F = Inl ValueError"
    using aggregate_means_validated [of ?F] bad by simp
  then have b: "aggregate 1 ?F = Inl ValueError" by simp
  from a b show ?thesis by blast
qed

end
